theory Spec2Isabelle
  imports Main
begin

section \<open>JavaScript values\<close>

text \<open>
  The values that travel in the navigation state and in the JSON bodies: absent
  (\<open>undefined\<close>), \<open>null\<close>, an integer number, a string. Truthiness is JavaScript's.
\<close>

datatype jsval = JUndefined | JNull | JNum int | JStr string

fun truthy :: "jsval \<Rightarrow> bool" where
  "truthy JUndefined = False"
| "truthy JNull = False"
| "truthy (JNum n) = (n \<noteq> 0)"
| "truthy (JStr s) = (s \<noteq> [])"

text \<open>A field that is a string when present: absent, or the empty string, is falsy.\<close>

definition truthy_str :: "string option \<Rightarrow> bool" where
  "truthy_str v = (case v of None \<Rightarrow> False | Some s \<Rightarrow> s \<noteq> [])"

subsection \<open>parseInt\<close>

definition is_ws :: "char \<Rightarrow> bool" where
  "is_ws c = (c \<in> set [CHR 0x09, CHR 0x0A, CHR 0x0B, CHR 0x0C, CHR 0x0D, CHR '' ''])"

definition digit_val :: "char \<Rightarrow> nat option" where
  "digit_val c =
     (let n = (of_char c :: nat) in
      if 48 \<le> n \<and> n \<le> 57 then Some (n - 48)
      else if 97 \<le> n \<and> n \<le> 122 then Some (n - 87)
      else if 65 \<le> n \<and> n \<le> 90 then Some (n - 55)
      else None)"

fun digits_of :: "nat \<Rightarrow> string \<Rightarrow> nat list" where
  "digits_of R [] = []"
| "digits_of R (c # cs) =
     (case digit_val c of
        None \<Rightarrow> []
      | Some d \<Rightarrow> if d < R then d # digits_of R cs else [])"

definition mathInt :: "nat \<Rightarrow> nat list \<Rightarrow> nat" where
  "mathInt R ds = foldl (\<lambda>a d. a * R + d) 0 ds"

text \<open>
  \<open>parseInt(s)\<close> with no radix: leading white space is skipped, a sign is read, a
  \<open>0x\<close> prefix selects radix 16, and the longest prefix of digits is the value; no
  digit at all is \<open>NaN\<close>, here \<open>None\<close>.
\<close>

definition parseInt :: "string \<Rightarrow> int option" where
  "parseInt s =
     (let s1 = dropWhile is_ws s;
          neg = (case s1 of [] \<Rightarrow> False | c # _ \<Rightarrow> c = CHR ''-'');
          s2 = (case s1 of [] \<Rightarrow> s1
                | c # cs \<Rightarrow> if c = CHR ''+'' \<or> c = CHR ''-'' then cs else s1);
          hex = (take 2 s2 = ''0x'' \<or> take 2 s2 = ''0X'');
          R = (if hex then 16 else 10);
          s3 = (if hex then drop 2 s2 else s2);
          ds = digits_of R s3
      in if ds = [] then None
         else Some ((if neg then - 1 else 1) * int (mathInt R ds)))"

text \<open>
  \<open>parseInt\<close> of a value: a string is parsed, an integer number is its own value,
  \<open>undefined\<close> and \<open>null\<close> read as the strings of those names and give \<open>NaN\<close>.
\<close>

fun parseInt_val :: "jsval \<Rightarrow> int option" where
  "parseInt_val (JStr s) = parseInt s"
| "parseInt_val (JNum n) = Some n"
| "parseInt_val JUndefined = None"
| "parseInt_val JNull = None"

subsection \<open>atob\<close>

definition b64_char :: "char \<Rightarrow> bool" where
  "b64_char c =
     (let n = (of_char c :: nat) in
      (65 \<le> n \<and> n \<le> 90) \<or> (97 \<le> n \<and> n \<le> 122) \<or> (48 \<le> n \<and> n \<le> 57)
      \<or> c = CHR ''+'' \<or> c = CHR ''/'')"

definition b64_ws :: "char \<Rightarrow> bool" where
  "b64_ws c = (c \<in> set [CHR 0x09, CHR 0x0A, CHR 0x0C, CHR 0x0D, CHR '' ''])"

text \<open>
  Whether \<open>atob(s)\<close> returns (True) or throws (False): white space is dropped, one
  or two closing \<open>=\<close> are dropped from a length that is a multiple of four, and what
  is left must be base64 characters of a length that is not 1 modulo 4. The decoded
  bytes only feed an opaque blob URL, so the model keeps the outcome alone.
\<close>

definition atob_ok :: "string \<Rightarrow> bool" where
  "atob_ok s =
     (let d = filter (\<lambda>c. \<not> b64_ws c) s;
          n = length d;
          d1 = (if n mod 4 = 0 then
                  (if 2 \<le> n \<and> drop (n - 2) d = ''=='' then take (n - 2) d
                   else if 1 \<le> n \<and> drop (n - 1) d = ''='' then take (n - 1) d
                   else d)
                else d)
      in length d1 mod 4 \<noteq> 1 \<and> list_all b64_char d1)"

section \<open>TalkScreen: data\<close>

datatype blob = Blob (blob_bytes: "nat list") (blob_type: string)

definition blob_size :: "blob \<Rightarrow> nat" where
  "blob_size b = length (blob_bytes b)"

text \<open>\<open>new Blob(parts, {type})\<close>: the parts' bytes in order.\<close>

definition new_Blob :: "blob list \<Rightarrow> string \<Rightarrow> blob" where
  "new_Blob parts ty = Blob (concat (map blob_bytes parts)) ty"

text \<open>\<open>location.state\<close> as DrawScreen builds it; \<open>location.state\<close> itself may be null.\<close>

record nav_state =
  st_prompt :: "string option"
  st_capturedImage :: "string option"
  st_question :: "string option"
  st_drawingId :: jsval
  st_questionId :: jsval
  st_questionAudio :: "string option"

text \<open>The component's \<open>useState\<close> cells. A blob URL is the number of its creation.\<close>

record talk_state =
  isRecording :: bool
  recordedChunks :: "blob list"
  mediaRecorder :: "nat option"
  isLoading :: bool
  error :: "string option"
  question :: "string option"
  questionAudio :: "nat option"
  hasRecording :: bool
  response :: "string option"
  responseAudio :: "nat option"
  showResponse :: bool
  questionAudioPlayed :: bool

definition initial_state :: talk_state where
  "initial_state =
     \<lparr> isRecording = False, recordedChunks = [], mediaRecorder = None, isLoading = True,
       error = None, question = None, questionAudio = None, hasRecording = False,
       response = None, responseAudio = None, showResponse = False,
       questionAudioPlayed = False \<rparr>"

datatype rec_state = Inactive | Recording

datatype track = Live | Ended

text \<open>
  A \<open>MediaRecorder\<close> with the tracks of its stream. \<open>stop()\<close> makes the recorder
  inactive at once and queues the task that fires \<open>dataavailable\<close> and \<open>stop\<close>;
  \<open>stopQueued\<close> says that this task is waiting.
\<close>

record recorder =
  rstate :: rec_state
  tracks :: "track list"
  stopQueued :: bool

record audio_el =
  src :: "nat option"
  paused :: bool
  currentTime :: nat
  pendingLoad :: bool

definition fresh_audio :: audio_el where
  "fresh_audio = \<lparr> src = None, paused = True, currentTime = 0, pendingLoad = False \<rparr>"

record transcribe_request =
  audio :: blob
  audio_filename :: string
  drawing_id :: "int option"
  question_id :: "int option"

record transcribe_result =
  r_response :: "string option"
  r_responseAudio :: "string option"

datatype fetch_outcome = NetworkError | HttpNotOk | BadJson | HttpOk transcribe_result

text \<open>Where the router is: on \<open>/talk\<close>, on \<open>/end\<close>, or on a page the user went to.\<close>

datatype route = TalkRoute | EndRoute | OtherRoute

text \<open>
  The component together with what it holds in the browser: the recorders it created
  (a recorder is referred to by its index), the two audio elements behind
  \<open>audioRef\<close> and \<open>responseAudioRef\<close> (None while the element is not rendered), the
  \<open>getUserMedia\<close> promises and the \<open>/transcribe-answer\<close> requests not yet settled,
  every request sent, and the number of times the effect called \<open>playAudio\<close>.
\<close>

record world =
  ui :: talk_state
  loc :: "nav_state option"
  route :: route
  recorders :: "recorder list"
  audioRef :: "audio_el option"
  responseAudioRef :: "audio_el option"
  pendingMic :: nat
  inflight :: nat
  sent :: "transcribe_request list"
  nextUrl :: nat
  playAudioCalls :: nat

section \<open>TalkScreen: handlers\<close>

text \<open>
  \<open>getQuestion\<close> has no \<open>await\<close>: it runs to its \<open>finally\<close> in one go, so its
  \<open>setIsLoading(true)\<close> is overwritten by the closing \<open>setIsLoading(false)\<close>. A
  failing \<open>atob\<close> is caught and logged, and the question is kept. The question
  and its audio are read from \<open>location.state || {}\<close>.
\<close>

definition loc_question :: "nav_state option \<Rightarrow> string option" where
  "loc_question l = (case l of None \<Rightarrow> None | Some st \<Rightarrow> st_question st)"

definition loc_questionAudio :: "nav_state option \<Rightarrow> string option" where
  "loc_questionAudio l = (case l of None \<Rightarrow> None | Some st \<Rightarrow> st_questionAudio st)"

definition getQuestion :: "world \<Rightarrow> world" where
  "getQuestion w =
     (let u = ui w;
          generatedQuestion = loc_question (loc w);
          audioData = loc_questionAudio (loc w)
      in if truthy_str generatedQuestion then
           (case audioData of
              None \<Rightarrow>
                w\<lparr>ui := u\<lparr>isLoading := False, error := None, question := generatedQuestion\<rparr>\<rparr>
            | Some a \<Rightarrow>
                if a \<noteq> [] \<and> atob_ok a then
                  w\<lparr>ui := u\<lparr>isLoading := False, error := None, question := generatedQuestion,
                            questionAudio := Some (nextUrl w)\<rparr>,
                    nextUrl := Suc (nextUrl w)\<rparr>
                else
                  w\<lparr>ui := u\<lparr>isLoading := False, error := None,
                            question := generatedQuestion\<rparr>\<rparr>)
         else
           w\<lparr>ui := u\<lparr>isLoading := False,
                     error := Some ''Oops! Something went wrong. Please try again.''\<rparr>\<rparr>)"

definition rec_recording :: "world \<Rightarrow> nat \<Rightarrow> bool" where
  "rec_recording w r = (r < length (recorders w) \<and> rstate (recorders w ! r) = Recording)"

text \<open>\<open>recorder.stop()\<close> on a recorder that is recording.\<close>

definition recorder_stop :: "nat \<Rightarrow> world \<Rightarrow> world" where
  "recorder_stop r w =
     w\<lparr>recorders := (recorders w)[r := (recorders w ! r)\<lparr>rstate := Inactive, stopQueued := True\<rparr>]\<rparr>"

text \<open>\<open>startRecording\<close> up to its \<open>await\<close>.\<close>

definition startRecording :: "world \<Rightarrow> world" where
  "startRecording w = w\<lparr>ui := (ui w)\<lparr>error := None\<rparr>, pendingMic := Suc (pendingMic w)\<rparr>"

text \<open>
  \<open>startRecording\<close> after \<open>getUserMedia\<close> resolved with a stream of \<open>n\<close> tracks: the
  new recorder is stored, started, and the flags are set. The constructor and
  \<open>start()\<close> are taken to succeed on a stream the browser has just granted.
\<close>

definition micGranted :: "nat \<Rightarrow> world \<Rightarrow> world" where
  "micGranted n w =
     w\<lparr>recorders := recorders w @ [\<lparr>rstate = Recording, tracks = replicate n Live,
                                     stopQueued = False\<rparr>],
       ui := (ui w)\<lparr>mediaRecorder := Some (length (recorders w)), isRecording := True,
                    hasRecording := False\<rparr>,
       pendingMic := pendingMic w - 1\<rparr>"

text \<open>\<open>startRecording\<close> after \<open>getUserMedia\<close> rejected: the \<open>catch\<close> branch.\<close>

definition micDenied :: "world \<Rightarrow> world" where
  "micDenied w =
     w\<lparr>ui := (ui w)\<lparr>error := Some ''Could not access microphone. Please check permissions.''\<rparr>,
       pendingMic := pendingMic w - 1\<rparr>"

definition stopRecording :: "world \<Rightarrow> world" where
  "stopRecording w =
     (case mediaRecorder (ui w) of
        None \<Rightarrow> w
      | Some r \<Rightarrow>
          if rec_recording w r
          then (recorder_stop r w)\<lparr>ui := (ui w)\<lparr>isRecording := False\<rparr>\<rparr>
          else w)"

definition handleTalkClick :: "world \<Rightarrow> world" where
  "handleTalkClick w = (if isRecording (ui w) then stopRecording w else startRecording w)"

text \<open>
  The task queued by \<open>stop()\<close> on recorder \<open>r\<close>: \<open>ondataavailable\<close> with the
  gathered data, then \<open>onstop\<close>.
\<close>

definition ondataavailable :: "blob \<Rightarrow> world \<Rightarrow> world" where
  "ondataavailable d w =
     (if blob_size d > 0
      then w\<lparr>ui := (ui w)\<lparr>recordedChunks := recordedChunks (ui w) @ [d]\<rparr>\<rparr>
      else w)"

definition onstop :: "nat \<Rightarrow> world \<Rightarrow> world" where
  "onstop r w =
     w\<lparr>recorders := (recorders w)[r := (recorders w ! r)\<lparr>tracks := map (\<lambda>t. Ended) (tracks (recorders w ! r))\<rparr>],
       ui := (ui w)\<lparr>hasRecording := True\<rparr>\<rparr>"

definition recorderStopTask :: "nat \<Rightarrow> blob \<Rightarrow> world \<Rightarrow> world" where
  "recorderStopTask r d w =
     (let w1 = onstop r (ondataavailable d w)
      in w1\<lparr>recorders := (recorders w1)[r := (recorders w1 ! r)\<lparr>stopQueued := False\<rparr>]\<rparr>)"

text \<open>
  \<open>handleFinish\<close> up to its \<open>await fetch\<close>. The two early returns pass through
  \<open>finally\<close>, which clears \<open>isLoading\<close>; the request leaves it set. The ids are
  read from \<open>location.state || {}\<close>.
\<close>

definition loc_drawingId :: "nav_state option \<Rightarrow> jsval" where
  "loc_drawingId l = (case l of None \<Rightarrow> JUndefined | Some st \<Rightarrow> st_drawingId st)"

definition loc_questionId :: "nav_state option \<Rightarrow> jsval" where
  "loc_questionId l = (case l of None \<Rightarrow> JUndefined | Some st \<Rightarrow> st_questionId st)"

definition handleFinish :: "world \<Rightarrow> world" where
  "handleFinish w =
     (let u = ui w in
      if \<not> hasRecording u then
        w\<lparr>route := EndRoute, ui := u\<lparr>isLoading := False, error := None\<rparr>\<rparr>
      else
        (let audioBlob = new_Blob (recordedChunks u) ''audio/webm'';
             drawingId = loc_drawingId (loc w);
             questionId = loc_questionId (loc w)
         in if \<not> truthy drawingId \<or> \<not> truthy questionId
               \<or> drawingId = JNum 0 \<or> questionId = JNum 0 then
              w\<lparr>ui := u\<lparr>isLoading := False, error := Some ''Missing drawing or question ID.''\<rparr>\<rparr>
            else
              w\<lparr>ui := u\<lparr>isLoading := True, error := None\<rparr>,
                inflight := Suc (inflight w),
                sent := sent w @ [\<lparr>audio = audioBlob, audio_filename = ''recording.webm'',
                                   drawing_id = parseInt_val drawingId,
                                   question_id = parseInt_val questionId\<rparr>]\<rparr>))"

text \<open>\<open>handleFinish\<close> after the \<open>fetch\<close> settled.\<close>

definition transcribeSettled :: "fetch_outcome \<Rightarrow> world \<Rightarrow> world" where
  "transcribeSettled out w =
     (let u = ui w; w0 = w\<lparr>inflight := inflight w - 1\<rparr> in
      case out of
        HttpOk res \<Rightarrow>
          if truthy_str (r_response res) then
            (case r_responseAudio res of
               None \<Rightarrow>
                 w0\<lparr>ui := u\<lparr>response := r_response res, showResponse := True,
                            isLoading := False\<rparr>\<rparr>
             | Some a \<Rightarrow>
                 if a \<noteq> [] \<and> atob_ok a then
                   w0\<lparr>ui := u\<lparr>response := r_response res, showResponse := True,
                              responseAudio := Some (nextUrl w), isLoading := False\<rparr>,
                      nextUrl := Suc (nextUrl w)\<rparr>
                 else
                   w0\<lparr>ui := u\<lparr>response := r_response res, showResponse := True,
                              isLoading := False\<rparr>\<rparr>)
          else
            w0\<lparr>route := EndRoute, ui := u\<lparr>isLoading := False\<rparr>\<rparr>
      | _ \<Rightarrow>
          w0\<lparr>ui := u\<lparr>error := Some ''Could not save your recording. Try again!'',
                     isLoading := False\<rparr>\<rparr>)"

definition handleContinue :: "world \<Rightarrow> world" where
  "handleContinue w = w\<lparr>route := EndRoute\<rparr>"

section \<open>TalkScreen: rendering and effects\<close>

datatype view =
    Spinner
  | ErrorView string
  | QuestionView string bool bool
  | ResponseView "string option"

text \<open>
  What the component renders. \<open>QuestionView bubble talkDisabled finishDisabled\<close> is
  the branch with the question bubble, the talk button and the finish button, both
  with \<open>disabled={isLoading}\<close>.
\<close>

definition render :: "talk_state \<Rightarrow> view" where
  "render u =
     (if isLoading u then Spinner
      else if truthy_str (error u) then ErrorView (case error u of None \<Rightarrow> [] | Some e \<Rightarrow> e)
      else if \<not> showResponse u then
        QuestionView
          (case question u of
             None \<Rightarrow> ''Tell me about what you drew!''
           | Some q \<Rightarrow> if q \<noteq> [] then q else ''Tell me about what you drew!'')
          (isLoading u) (isLoading u)
      else ResponseView (response u))"

text \<open>
  The two \<open>audio\<close> elements belong to the last branch of the render only. An element
  that is rendered again is a new element; one that is not rendered leaves the refs,
  and a load it was waiting for is not followed any further.
\<close>

definition audio_rendered :: "talk_state \<Rightarrow> bool" where
  "audio_rendered u = (\<not> isLoading u \<and> \<not> truthy_str (error u))"

definition detach_refs :: "world \<Rightarrow> world" where
  "detach_refs w = w\<lparr>audioRef := None, responseAudioRef := None\<rparr>"

definition attach_refs :: "world \<Rightarrow> world" where
  "attach_refs w =
     (if audio_rendered (ui w) then
        w\<lparr>audioRef := (case audioRef w of None \<Rightarrow> Some fresh_audio | Some a \<Rightarrow> Some a),
          responseAudioRef :=
            (case responseAudioRef w of None \<Rightarrow> Some fresh_audio | Some a \<Rightarrow> Some a)\<rparr>
      else detach_refs w)"

text \<open>
  The cleanup of the first effect, with the \<open>mediaRecorder\<close> of the render that
  created it; \<open>audioRef.current\<close> is read as the cleanup finds it: attached when the
  cleanup runs because \<open>mediaRecorder\<close> changed under a rendered element, null when
  it runs for an unmount.
\<close>

definition cleanup :: "nat option \<Rightarrow> world \<Rightarrow> world" where
  "cleanup mr w =
     (let w1 = (case mr of
                  None \<Rightarrow> w
                | Some r \<Rightarrow> if rec_recording w r then recorder_stop r w else w)
      in case audioRef w1 of
           None \<Rightarrow> w1
         | Some a \<Rightarrow> w1\<lparr>audioRef := Some (a\<lparr>paused := True, currentTime := 0\<rparr>)\<rparr>)"

text \<open>
  The second effect, with the state \<open>cur\<close> of the render that created it.
  \<open>playAudio\<close> resets the element, sets its source and waits for
  \<open>canplaythrough\<close>.
\<close>

definition playAudio :: "nat \<Rightarrow> audio_el \<Rightarrow> world \<Rightarrow> world" where
  "playAudio url a w =
     w\<lparr>audioRef := Some (a\<lparr>paused := True, currentTime := 0, src := Some url,
                           pendingLoad := True\<rparr>),
       playAudioCalls := Suc (playAudioCalls w)\<rparr>"

definition playEffect :: "talk_state \<Rightarrow> world \<Rightarrow> world" where
  "playEffect cur w =
     (case questionAudio cur of
        None \<Rightarrow> w
      | Some url \<Rightarrow>
          (case audioRef w of
             None \<Rightarrow> w
           | Some a \<Rightarrow> if \<not> questionAudioPlayed cur then playAudio url a w else w))"

text \<open>
  The awaited \<open>canplaythrough\<close> arrived: \<open>audio.play()\<close> starts the element and its
  \<open>play\<close> event runs \<open>onplay\<close>, which sets the flag.
\<close>

definition audioLoaded :: "world \<Rightarrow> world" where
  "audioLoaded w =
     (case audioRef w of
        None \<Rightarrow> w
      | Some a \<Rightarrow>
          w\<lparr>audioRef := Some (a\<lparr>paused := False, pendingLoad := False\<rparr>),
            ui := (ui w)\<lparr>questionAudioPlayed := True\<rparr>\<rparr>)"

text \<open>The load failed or \<open>play()\<close> rejected: the \<open>catch\<close> of \<open>playAudio\<close>.\<close>

definition audioFailed :: "world \<Rightarrow> world" where
  "audioFailed w =
     (case audioRef w of
        None \<Rightarrow> w
      | Some a \<Rightarrow>
          w\<lparr>audioRef := Some (a\<lparr>pendingLoad := False\<rparr>),
            ui := (ui w)\<lparr>error := Some ''Unable to play the question audio. Please try again.''\<rparr>\<rparr>)"

text \<open>The third effect: the response audio is set and played.\<close>

definition responseEffect :: "talk_state \<Rightarrow> world \<Rightarrow> world" where
  "responseEffect cur w =
     (case responseAudio cur of
        None \<Rightarrow> w
      | Some url \<Rightarrow>
          (case responseAudioRef w of
             None \<Rightarrow> w
           | Some a \<Rightarrow> w\<lparr>responseAudioRef := Some (a\<lparr>src := Some url, paused := False\<rparr>)\<rparr>))"

text \<open>
  One commit. \<open>prev\<close> is the state of the render before, the state in \<open>w\<close> the one
  just rendered. The refs follow the render; an effect whose dependencies changed
  runs its cleanup and then its body, the bodies in the order of the source and with
  the values of this render. The first effect calls \<open>getQuestion\<close> every time
  \<open>mediaRecorder\<close> changes.
\<close>

definition effects_pass :: "talk_state \<Rightarrow> world \<Rightarrow> world" where
  "effects_pass prev w =
     (let cur = ui w;
          w0 = attach_refs w;
          w1 = (if mediaRecorder cur \<noteq> mediaRecorder prev
                then getQuestion (cleanup (mediaRecorder prev) w0) else w0);
          w2 = (if questionAudio cur \<noteq> questionAudio prev
                   \<or> questionAudioPlayed cur \<noteq> questionAudioPlayed prev
                then playEffect cur w1 else w1);
          w3 = (if responseAudio cur \<noteq> responseAudio prev
                then responseEffect cur w2 else w2)
      in w3)"

text \<open>
  The state that \<open>getQuestion\<close> set inside the first commit is rendered by a second
  one; no effect of that second commit sets state, so it is the last.
\<close>

definition commit :: "talk_state \<Rightarrow> world \<Rightarrow> world" where
  "commit prev w = effects_pass (ui w) (effects_pass prev w)"

text \<open>
  Mounting at \<open>/talk\<close> with navigation state \<open>st\<close>: the first render shows the
  spinner, every effect runs once (the second and third find nothing to play), and
  the state \<open>getQuestion\<close> set is committed.
\<close>

definition mount :: "nav_state option \<Rightarrow> world" where
  "mount st =
     (let w0 = \<lparr> ui = initial_state, loc = st, route = TalkRoute, recorders = [],
                 audioRef = None, responseAudioRef = None, pendingMic = 0, inflight = 0,
                 sent = [], nextUrl = 0, playAudioCalls = 0 \<rparr>
      in effects_pass initial_state (getQuestion (attach_refs w0)))"

section \<open>TalkScreen: events\<close>

datatype event =
    ClickTalk
  | ClickFinish
  | ClickContinue
  | ClickRetry
  | MicGranted nat
  | MicDenied
  | RecorderStopTask nat blob
  | TranscribeSettled fetch_outcome
  | AudioLoaded
  | AudioFailed
  | NavigateAway

text \<open>
  An event can happen when its button is rendered and not disabled, or when the
  promise, task or load it completes is waiting; the user can leave \<open>/talk\<close> by
  the browser's own navigation at any time.
\<close>

definition enabled :: "world \<Rightarrow> event \<Rightarrow> bool" where
  "enabled w e =
     (case e of
        ClickTalk \<Rightarrow>
          route w = TalkRoute \<and>
          (case render (ui w) of QuestionView b td fd \<Rightarrow> \<not> td | _ \<Rightarrow> False)
      | ClickFinish \<Rightarrow>
          route w = TalkRoute \<and>
          (case render (ui w) of QuestionView b td fd \<Rightarrow> \<not> fd | _ \<Rightarrow> False)
      | ClickContinue \<Rightarrow>
          route w = TalkRoute \<and>
          (case render (ui w) of ResponseView r \<Rightarrow> True | _ \<Rightarrow> False)
      | ClickRetry \<Rightarrow>
          route w = TalkRoute \<and>
          (case render (ui w) of ErrorView m \<Rightarrow> True | _ \<Rightarrow> False)
      | MicGranted n \<Rightarrow> pendingMic w > 0
      | MicDenied \<Rightarrow> pendingMic w > 0
      | RecorderStopTask r d \<Rightarrow> r < length (recorders w) \<and> stopQueued (recorders w ! r)
      | TranscribeSettled out \<Rightarrow> inflight w > 0
      | AudioLoaded \<Rightarrow>
          (case audioRef w of None \<Rightarrow> False | Some a \<Rightarrow> pendingLoad a)
      | AudioFailed \<Rightarrow>
          (case audioRef w of None \<Rightarrow> False | Some a \<Rightarrow> pendingLoad a)
      | NavigateAway \<Rightarrow> route w = TalkRoute)"

definition handler :: "event \<Rightarrow> world \<Rightarrow> world" where
  "handler e w =
     (case e of
        ClickTalk \<Rightarrow> handleTalkClick w
      | ClickFinish \<Rightarrow> handleFinish w
      | ClickContinue \<Rightarrow> handleContinue w
      | ClickRetry \<Rightarrow> getQuestion w
      | MicGranted n \<Rightarrow> micGranted n w
      | MicDenied \<Rightarrow> micDenied w
      | RecorderStopTask r d \<Rightarrow> recorderStopTask r d w
      | TranscribeSettled out \<Rightarrow> transcribeSettled out w
      | AudioLoaded \<Rightarrow> audioLoaded w
      | AudioFailed \<Rightarrow> audioFailed w
      | NavigateAway \<Rightarrow> w\<lparr>route := OtherRoute\<rparr>)"

text \<open>
  One event: its handler runs with the state updates batched, then the component
  renders and commits. After the component is unmounted its state setters do
  nothing and no effect runs. A navigation away from \<open>/talk\<close> unmounts it: React
  removes the elements and sets their refs to null, and after that runs the cleanup
  of the first effect, which therefore finds no \<open>audioRef.current\<close> to pause.
\<close>

definition step :: "world \<Rightarrow> event \<Rightarrow> world" where
  "step w e =
     (if enabled w e then
        (let w1 = handler e w in
         if route w \<noteq> TalkRoute then w1\<lparr>ui := ui w\<rparr>
         else if route w1 \<noteq> TalkRoute then cleanup (mediaRecorder (ui w)) (detach_refs w1)
         else commit (ui w) w1)
      else w)"

definition run :: "world \<Rightarrow> event list \<Rightarrow> world" where
  "run w es = foldl step w es"

text \<open>The same, refusing a trace with an event that cannot happen where it stands.\<close>

fun run_checked :: "world \<Rightarrow> event list \<Rightarrow> world option" where
  "run_checked w [] = Some w"
| "run_checked w (e # es) = (if enabled w e then run_checked (step w e) es else None)"

text \<open>The outcomes of the request that take the \<open>catch\<close> of \<open>handleFinish\<close>.\<close>

definition is_failure :: "fetch_outcome \<Rightarrow> bool" where
  "is_failure out = (case out of HttpOk res \<Rightarrow> False | _ \<Rightarrow> True)"

section \<open>DrawScreen\<close>

record draw_state =
  capturedImage :: "string option"
  isLoading_draw :: bool
  error_draw :: "string option"
  showCamera :: bool

record analysis_result =
  a_question :: "string option"
  a_drawingId :: jsval
  a_questionId :: jsval
  a_questionAudio :: "string option"

datatype analyze_outcome =
    DataUrlFailed
  | AnalyzeNetworkError
  | AnalyzeNotOk
  | AnalyzeBadJson
  | AnalyzeOk analysis_result

text \<open>
  The component on \<open>/draw\<close>: its state, the \<open>location.state\<close> it was entered with,
  the captured image of every \<open>handleNext\<close> that is waiting for its requests (the
  continuation keeps the image of the render that started it), and the state it
  navigated to \<open>/talk\<close> with, once it did.
\<close>

record draw_world =
  dui :: draw_state
  dloc :: "nav_state option"
  pendingNext :: "string list"
  navigated :: "nav_state option"

definition draw_initial :: "nav_state option \<Rightarrow> draw_world" where
  "draw_initial l =
     \<lparr> dui = \<lparr> capturedImage = None, isLoading_draw = False, error_draw = None,
                showCamera = False \<rparr>,
       dloc = l, pendingNext = [], navigated = None \<rparr>"

datatype draw_event =
    DStartCamera
  | DCapture "string option"
  | DCaptureThrows
  | DRetake
  | DNext
  | DAnalyzeSettled analyze_outcome

text \<open>The \<open>disabled\<close> attribute of the next button.\<close>

definition nextDisabled :: "draw_state \<Rightarrow> bool" where
  "nextDisabled u = (\<not> truthy_str (capturedImage u) \<or> isLoading_draw u)"

definition draw_enabled :: "draw_world \<Rightarrow> draw_event \<Rightarrow> bool" where
  "draw_enabled w e =
     (case e of
        DStartCamera \<Rightarrow>
          navigated w = None \<and> \<not> truthy_str (capturedImage (dui w)) \<and> \<not> showCamera (dui w)
      | DCapture img \<Rightarrow>
          navigated w = None \<and> \<not> truthy_str (capturedImage (dui w)) \<and> showCamera (dui w)
      | DCaptureThrows \<Rightarrow>
          navigated w = None \<and> \<not> truthy_str (capturedImage (dui w)) \<and> showCamera (dui w)
      | DRetake \<Rightarrow> navigated w = None \<and> truthy_str (capturedImage (dui w))
      | DNext \<Rightarrow> navigated w = None \<and> \<not> nextDisabled (dui w)
      | DAnalyzeSettled out \<Rightarrow> pendingNext w \<noteq> [])"

definition capture :: "string option \<Rightarrow> draw_world \<Rightarrow> draw_world" where
  "capture imageSrc w =
     w\<lparr>dui := (dui w)\<lparr>capturedImage := imageSrc, showCamera := False, error_draw := None\<rparr>\<rparr>"

definition capture_throws :: "draw_world \<Rightarrow> draw_world" where
  "capture_throws w =
     w\<lparr>dui := (dui w)\<lparr>error_draw := Some ''Could not capture image. Please try again.''\<rparr>\<rparr>"

definition retake :: "draw_world \<Rightarrow> draw_world" where
  "retake w =
     w\<lparr>dui := (dui w)\<lparr>capturedImage := None, error_draw := None, showCamera := True\<rparr>\<rparr>"

definition startCamera :: "draw_world \<Rightarrow> draw_world" where
  "startCamera w = w\<lparr>dui := (dui w)\<lparr>showCamera := True, error_draw := None\<rparr>\<rparr>"

text \<open>\<open>handleNext\<close> up to its first \<open>await\<close>.\<close>

definition handleNext :: "draw_world \<Rightarrow> draw_world" where
  "handleNext w =
     (case capturedImage (dui w) of
        None \<Rightarrow> w
      | Some img \<Rightarrow>
          if img = [] then w
          else w\<lparr>dui := (dui w)\<lparr>isLoading_draw := True, error_draw := None\<rparr>,
                 pendingNext := pendingNext w @ [img]\<rparr>)"

text \<open>
  The state given to \<open>navigate('/talk', ...)\<close>: the spread of \<open>location.state\<close>,
  then the image of the closure and the four fields of the analysis result.
\<close>

definition talk_nav :: "nav_state option \<Rightarrow> string \<Rightarrow> analysis_result \<Rightarrow> nav_state" where
  "talk_nav l img res =
     \<lparr> st_prompt = (case l of None \<Rightarrow> None | Some st \<Rightarrow> st_prompt st),
       st_capturedImage = Some img,
       st_question = a_question res,
       st_drawingId = a_drawingId res,
       st_questionId = a_questionId res,
       st_questionAudio = a_questionAudio res \<rparr>"

text \<open>
  \<open>handleNext\<close> after its requests settled, for the oldest waiting call. Once the
  component has navigated it is unmounted and its setters do nothing.
\<close>

definition analyzeSettled :: "analyze_outcome \<Rightarrow> draw_world \<Rightarrow> draw_world" where
  "analyzeSettled out w =
     (case pendingNext w of
        [] \<Rightarrow> w
      | img # rest \<Rightarrow>
          (let w0 = w\<lparr>pendingNext := rest\<rparr> in
           case out of
             AnalyzeOk res \<Rightarrow> w0\<lparr>navigated := Some (talk_nav (dloc w) img res)\<rparr>
           | _ \<Rightarrow>
               if navigated w \<noteq> None then w0
               else
                 w0\<lparr>dui := (dui w)\<lparr>error_draw :=
                                       Some ''Could not analyze your drawing. Please try again.'',
                                     isLoading_draw := False\<rparr>\<rparr>))"

definition draw_step :: "draw_world \<Rightarrow> draw_event \<Rightarrow> draw_world" where
  "draw_step w e =
     (if draw_enabled w e then
        (case e of
           DStartCamera \<Rightarrow> startCamera w
         | DCapture img \<Rightarrow> capture img w
         | DCaptureThrows \<Rightarrow> capture_throws w
         | DRetake \<Rightarrow> retake w
         | DNext \<Rightarrow> handleNext w
         | DAnalyzeSettled out \<Rightarrow> analyzeSettled out w)
      else w)"

definition draw_run :: "draw_world \<Rightarrow> draw_event list \<Rightarrow> draw_world" where
  "draw_run w es = foldl draw_step w es"

section \<open>App: the consent check\<close>

text \<open>
  Times are milliseconds since the epoch. The stored \<open>consentDate\<close> is read through
  \<open>new Date(...)\<close>: None is an invalid date. \<open>childAge\<close> is what \<open>parseInt\<close> gave.
\<close>

record consent =
  parentName :: string
  email :: string
  childAge :: "int option"
  consentDate :: "int option"
  sessionId :: string

text \<open>
  The item \<open>parentalConsent\<close> of \<open>localStorage\<close> as \<open>JSON.parse\<close> reads it: a text
  on which the parse or the field access throws, or a record.
\<close>

datatype stored = Unparseable | Consent consent

record app_state =
  hasConsent :: bool
  consentData :: "consent option"
  showConsent :: bool

record app_world =
  app :: app_state
  storage :: "stored option"

definition app_initial :: app_state where
  "app_initial = \<lparr> hasConsent = False, consentData = None, showConsent = False \<rparr>"

definition msPerDay :: int where
  "msPerDay = 86400000"

text \<open>
  The time zone of the browser: the offset of local time from UTC, in milliseconds,
  at a UTC instant and at a local clock value (the two readings that \<open>Date\<close> makes
  when it converts to local time and back).
\<close>

record timezone =
  offset_at_utc :: "int \<Rightarrow> int"
  offset_at_local :: "int \<Rightarrow> int"

definition LocalTime :: "timezone \<Rightarrow> int \<Rightarrow> int" where
  "LocalTime tz t = t + offset_at_utc tz t"

definition utc_of_local :: "timezone \<Rightarrow> int \<Rightarrow> int" where
  "utc_of_local tz t = t - offset_at_local tz t"

text \<open>
  \<open>thirtyDaysAgo.setDate(thirtyDaysAgo.getDate() - 30)\<close> on \<open>new Date()\<close>: the date
  is read and set in local time, so the local clock value goes back thirty days of
  24 hours, the time of day kept, and the result is that local value as an instant.
\<close>

definition thirtyDaysAgo :: "timezone \<Rightarrow> int \<Rightarrow> int" where
  "thirtyDaysAgo tz now = utc_of_local tz (LocalTime tz now - 30 * msPerDay)"

text \<open>
  The effect that runs once when \<open>App\<close> mounts, at time \<open>now\<close> in the zone \<open>tz\<close>.
\<close>

definition checkConsent :: "timezone \<Rightarrow> int \<Rightarrow> app_world \<Rightarrow> app_world" where
  "checkConsent tz now w =
     (case storage w of
        None \<Rightarrow> w\<lparr>app := (app w)\<lparr>showConsent := True\<rparr>\<rparr>
      | Some Unparseable \<Rightarrow> w\<lparr>app := (app w)\<lparr>showConsent := True\<rparr>\<rparr>
      | Some (Consent c) \<Rightarrow>
          (case consentDate c of
             None \<Rightarrow> w\<lparr>storage := None, app := (app w)\<lparr>showConsent := True\<rparr>\<rparr>
           | Some d \<Rightarrow>
               if d > thirtyDaysAgo tz now then
                 w\<lparr>app := (app w)\<lparr>hasConsent := True, consentData := Some c\<rparr>\<rparr>
               else
                 w\<lparr>storage := None, app := (app w)\<lparr>showConsent := True\<rparr>\<rparr>))"

definition app_start :: "timezone \<Rightarrow> int \<Rightarrow> stored option \<Rightarrow> app_world" where
  "app_start tz now item = checkConsent tz now \<lparr> app = app_initial, storage = item \<rparr>"

datatype app_view = ConsentForm | MainApp | ConsentRequired

definition app_render :: "app_state \<Rightarrow> app_view" where
  "app_render a =
     (if showConsent a then ConsentForm
      else if hasConsent a then MainApp
      else ConsentRequired)"

function show_nat :: "nat \<Rightarrow> string" where
  "show_nat n =
     (if n < 10 then [char_of (48 + n)]
      else show_nat (n div 10) @ [char_of (48 + n mod 10)])"
  by pat_completeness auto
termination
  by (relation "measure (\<lambda>n. n)") auto

declare show_nat.simps [simp del]

definition show_int :: "int \<Rightarrow> string" where
  "show_int i = (if i < 0 then CHR ''-'' # show_nat (nat (- i)) else show_nat (nat i))"

record consent_form =
  f_parentName :: string
  f_email :: string
  f_childAge :: string
  f_agreedToTerms :: bool

text \<open>
  \<open>handleConsent\<close> of the form, with the time \<open>new Date()\<close> read and the time
  \<open>Date.now()\<close> read, followed by \<open>handleConsentGiven\<close> of \<open>App\<close>. An incomplete
  form only raises an alert.
\<close>

definition handleConsent :: "consent_form \<Rightarrow> int \<Rightarrow> int \<Rightarrow> app_world \<Rightarrow> app_world" where
  "handleConsent f now stamp w =
     (if f_parentName f \<noteq> [] \<and> f_email f \<noteq> [] \<and> f_childAge f \<noteq> [] \<and> f_agreedToTerms f then
        (let consentData = \<lparr> parentName = f_parentName f, email = f_email f,
                              childAge = parseInt (f_childAge f),
                              consentDate = Some now,
                              sessionId = ''session_'' @ show_int stamp \<rparr>
         in w\<lparr>storage := Some (Consent consentData),
              app := (app w)\<lparr>hasConsent := True, consentData := Some consentData,
                             showConsent := False\<rparr>\<rparr>)
      else w)"

text \<open>
  The spec's words: a record is valid for 30 days from its \<open>consentDate\<close>.
\<close>

definition within_30_days :: "consent \<Rightarrow> int \<Rightarrow> bool" where
  "within_30_days c now =
     (case consentDate c of None \<Rightarrow> False | Some d \<Rightarrow> now - d < 30 * msPerDay)"

text \<open>
  What the code counts instead: thirty days on the local clock. \<open>zone_shift\<close> is how
  much the local offset at \<open>now\<close> exceeds the one of the clock value thirty days
  earlier; the record is valid while its age is less than 30 days of 24 hours less
  that shift.
\<close>

definition zone_shift :: "timezone \<Rightarrow> int \<Rightarrow> int" where
  "zone_shift tz now =
     offset_at_utc tz now - offset_at_local tz (LocalTime tz now - 30 * msPerDay)"

definition local_within_30_days :: "timezone \<Rightarrow> consent \<Rightarrow> int \<Rightarrow> bool" where
  "local_within_30_days tz c now =
     (case consentDate c of
        None \<Rightarrow> False
      | Some d \<Rightarrow> now - d < 30 * msPerDay - zone_shift tz now)"

section \<open>Example sessions\<close>

text \<open>
  The session of the spec's scenario: drawing 42, question 7; without and with a
  spoken question.
\<close>

definition result0 :: analysis_result where
  "result0 =
     \<lparr> a_question = Some ''What is your animal doing?'', a_drawingId = JNum 42,
       a_questionId = JNum 7, a_questionAudio = None \<rparr>"

definition loc0 :: "nav_state option" where
  "loc0 =
     Some \<lparr> st_prompt = Some ''Draw your favorite animal'',
            st_capturedImage = Some ''data:image/jpeg;base64,AAAA'',
            st_question = Some ''What is your animal doing?'',
            st_drawingId = JNum 42, st_questionId = JNum 7,
            st_questionAudio = None \<rparr>"

definition loc_audio :: "nav_state option" where
  "loc_audio =
     Some \<lparr> st_prompt = Some ''Draw your favorite animal'',
            st_capturedImage = Some ''data:image/jpeg;base64,AAAA'',
            st_question = Some ''What is your animal doing?'',
            st_drawingId = JNum 42, st_questionId = JNum 7,
            st_questionAudio = Some ''UklGRg=='' \<rparr>"

definition loc_no_ids :: "nav_state option" where
  "loc_no_ids =
     Some \<lparr> st_prompt = None, st_capturedImage = None,
            st_question = Some ''What is your animal doing?'',
            st_drawingId = JUndefined, st_questionId = JNum 0,
            st_questionAudio = None \<rparr>"

definition blob0 :: blob where
  "blob0 = Blob [1, 2, 3] ''audio/webm''"

definition empty_blob :: blob where
  "empty_blob = Blob [] ''audio/webm''"

text \<open>One recording, started and stopped by the user, its data delivered.\<close>

definition recorded :: "blob \<Rightarrow> event list" where
  "recorded b = [ClickTalk, MicGranted 1, ClickTalk, RecorderStopTask 0 b]"

text \<open>
  A second recording is asked for and the first one is sent while the microphone is
  still being acquired; the microphone arrives, the second recording is stopped and
  sent as well.
\<close>

definition double_submit :: "event list" where
  "double_submit =
     recorded blob0 @
     [ClickTalk, ClickFinish, MicGranted 1, ClickTalk,
      RecorderStopTask 1 (Blob [4] ''audio/webm''), ClickFinish]"

section \<open>Properties of a state\<close>

text \<open>
  No stale track: a recorder that is no longer recording, and whose \<open>stop\<close> task
  has run, has every track of its stream ended. (A recorder that is recording holds
  its microphone, and one whose task is queued holds it until the task runs.)
\<close>

definition no_stale_track :: "recorder \<Rightarrow> bool" where
  "no_stale_track rc =
     (rstate rc = Recording \<or> stopQueued rc \<or> list_all (\<lambda>t. t = Ended) (tracks rc))"

definition no_stale_tracks :: "world \<Rightarrow> bool" where
  "no_stale_tracks w = list_all no_stale_track (recorders w)"

text \<open>
  Every recorder is stopped: it is inactive, and its tracks are ended or the task
  that will end them is queued.
\<close>

definition rec_stopped :: "recorder \<Rightarrow> bool" where
  "rec_stopped rc =
     (rstate rc = Inactive \<and> (stopQueued rc \<or> list_all (\<lambda>t. t = Ended) (tracks rc)))"

definition all_stopped :: "world \<Rightarrow> bool" where
  "all_stopped w = list_all rec_stopped (recorders w)"

text \<open>The example session after its recording was sent, and a result with no response.\<close>

definition submitting0 :: world where
  "submitting0 = run (mount loc0) (recorded blob0 @ [ClickFinish])"

definition no_response :: transcribe_result where
  "no_response = \<lparr> r_response = None, r_responseAudio = None \<rparr>"

text \<open>More states of the example session, and DrawScreen waiting for its analysis.\<close>

definition recorded_empty :: world where
  "recorded_empty = run (mount loc0) (recorded empty_blob)"

definition asking_mic :: world where
  "asking_mic = run (mount loc0) [ClickTalk]"

definition recorded_no_ids :: world where
  "recorded_no_ids = run (mount loc_no_ids) (recorded blob0)"

definition playing0 :: world where
  "playing0 = run (mount loc_audio) [AudioLoaded]"

definition prompt_state :: "nav_state option" where
  "prompt_state =
     Some \<lparr> st_prompt = Some ''Draw your favorite animal'', st_capturedImage = None,
            st_question = None, st_drawingId = JUndefined, st_questionId = JUndefined,
            st_questionAudio = None \<rparr>"

definition analyzing0 :: draw_world where
  "analyzing0 =
     draw_run (draw_initial prompt_state)
       [DStartCamera, DCapture (Some ''data:image/jpeg;base64,AAAA''), DNext]"

text \<open>
  A zone with no offset, and a zone one hour ahead of UTC that moves its clock
  forward by one more hour at 2024-03-31 01:00 UTC.
\<close>

definition utc_zone :: timezone where
  "utc_zone = \<lparr> offset_at_utc = (\<lambda>t. 0), offset_at_local = (\<lambda>t. 0) \<rparr>"

definition spring_zone :: timezone where
  "spring_zone =
     \<lparr> offset_at_utc = (\<lambda>t. if t < 1711846800000 then 3600000 else 7200000),
       offset_at_local = (\<lambda>t. if t < 1711854000000 then 3600000 else 7200000) \<rparr>"

text \<open>
  A record given on 2024-03-16 at 12:30 UTC, read on 2024-04-15 at 12:00 UTC: thirty
  days less half an hour later.
\<close>

definition consent_spring :: consent where
  "consent_spring = \<lparr> parentName = ''Ada'', email = ''ada@example.org'', childAge = Some 7,
                      consentDate = Some 1710592200000,
                      sessionId = ''session_1710592200001'' \<rparr>"

text \<open>A consent record as \<open>handleConsent\<close> stores it.\<close>

definition consent0 :: consent where
  "consent0 = \<lparr> parentName = ''Ada'', email = ''ada@example.org'', childAge = Some 7,
                consentDate = Some 1700000000000, sessionId = ''session_1700000000001'' \<rparr>"

text \<open>The user asked for the microphone and got a stream of two tracks.\<close>

definition recording0 :: "event list" where
  "recording0 = [ClickTalk, MicGranted 2]"

section \<open>Frame lemmas\<close>

lemma detach_refs_fields [simp]:
  "ui (detach_refs w) = ui w"
  "route (detach_refs w) = route w" "recorders (detach_refs w) = recorders w"
  "inflight (detach_refs w) = inflight w" "sent (detach_refs w) = sent w"
  "pendingMic (detach_refs w) = pendingMic w" "loc (detach_refs w) = loc w"
  "playAudioCalls (detach_refs w) = playAudioCalls w" "nextUrl (detach_refs w) = nextUrl w"
  by (simp_all add: detach_refs_def)

lemma attach_refs_ui [simp]: "ui (attach_refs w) = ui w"
  by (simp add: attach_refs_def)

lemma attach_refs_fields [simp]:
  "route (attach_refs w) = route w" "recorders (attach_refs w) = recorders w"
  "inflight (attach_refs w) = inflight w" "sent (attach_refs w) = sent w"
  "pendingMic (attach_refs w) = pendingMic w" "loc (attach_refs w) = loc w"
  "playAudioCalls (attach_refs w) = playAudioCalls w" "nextUrl (attach_refs w) = nextUrl w"
  by (simp_all add: attach_refs_def)

lemma cleanup_fields [simp]:
  "route (cleanup mr w) = route w" "ui (cleanup mr w) = ui w"
  "inflight (cleanup mr w) = inflight w" "sent (cleanup mr w) = sent w"
  "pendingMic (cleanup mr w) = pendingMic w" "loc (cleanup mr w) = loc w"
  "playAudioCalls (cleanup mr w) = playAudioCalls w" "nextUrl (cleanup mr w) = nextUrl w"
  by (simp_all add: cleanup_def recorder_stop_def Let_def split: option.splits)

lemma getQuestion_fields [simp]:
  "route (getQuestion w) = route w" "recorders (getQuestion w) = recorders w"
  "inflight (getQuestion w) = inflight w" "sent (getQuestion w) = sent w"
  "pendingMic (getQuestion w) = pendingMic w" "loc (getQuestion w) = loc w"
  "playAudioCalls (getQuestion w) = playAudioCalls w"
  "audioRef (getQuestion w) = audioRef w"
  by (simp_all add: getQuestion_def Let_def split: option.splits)

lemma getQuestion_ui_fields [simp]:
  "mediaRecorder (ui (getQuestion w)) = mediaRecorder (ui w)"
  "questionAudioPlayed (ui (getQuestion w)) = questionAudioPlayed (ui w)"
  "responseAudio (ui (getQuestion w)) = responseAudio (ui w)"
  "hasRecording (ui (getQuestion w)) = hasRecording (ui w)"
  "recordedChunks (ui (getQuestion w)) = recordedChunks (ui w)"
  "isRecording (ui (getQuestion w)) = isRecording (ui w)"
  "showResponse (ui (getQuestion w)) = showResponse (ui w)"
  by (simp_all add: getQuestion_def Let_def split: option.splits)

lemma playEffect_fields [simp]:
  "route (playEffect cur w) = route w" "ui (playEffect cur w) = ui w"
  "recorders (playEffect cur w) = recorders w"
  "inflight (playEffect cur w) = inflight w" "sent (playEffect cur w) = sent w"
  "pendingMic (playEffect cur w) = pendingMic w" "loc (playEffect cur w) = loc w"
  by (simp_all add: playEffect_def playAudio_def split: option.splits)

lemma responseEffect_fields [simp]:
  "route (responseEffect cur w) = route w" "ui (responseEffect cur w) = ui w"
  "recorders (responseEffect cur w) = recorders w"
  "inflight (responseEffect cur w) = inflight w" "sent (responseEffect cur w) = sent w"
  "pendingMic (responseEffect cur w) = pendingMic w" "loc (responseEffect cur w) = loc w"
  "playAudioCalls (responseEffect cur w) = playAudioCalls w"
  "audioRef (responseEffect cur w) = audioRef w"
  by (simp_all add: responseEffect_def split: option.splits)

lemma effects_pass_fields [simp]:
  "route (effects_pass prev w) = route w"
  "inflight (effects_pass prev w) = inflight w" "sent (effects_pass prev w) = sent w"
  "pendingMic (effects_pass prev w) = pendingMic w" "loc (effects_pass prev w) = loc w"
  by (simp_all add: effects_pass_def Let_def)

lemma commit_fields [simp]:
  "route (commit prev w) = route w"
  "inflight (commit prev w) = inflight w" "sent (commit prev w) = sent w"
  "pendingMic (commit prev w) = pendingMic w" "loc (commit prev w) = loc w"
  by (simp_all add: commit_def)

lemma getQuestion_ui_cong:
  "ui w = ui w' \<Longrightarrow> loc w = loc w' \<Longrightarrow> nextUrl w = nextUrl w'
   \<Longrightarrow> ui (getQuestion w) = ui (getQuestion w')"
  by (simp add: getQuestion_def Let_def split: option.splits)

lemma effects_pass_ui:
  "ui (effects_pass prev w) =
     (if mediaRecorder (ui w) \<noteq> mediaRecorder prev then ui (getQuestion w) else ui w)"
  by (simp add: effects_pass_def Let_def getQuestion_ui_cong [of "cleanup (mediaRecorder prev) (attach_refs w)" w])

lemma effects_pass_flag [simp]:
  "questionAudioPlayed (ui (effects_pass prev w)) = questionAudioPlayed (ui w)"
  by (simp add: effects_pass_ui)

lemma effects_pass_mediaRecorder [simp]:
  "mediaRecorder (ui (effects_pass prev w)) = mediaRecorder (ui w)"
  by (simp add: effects_pass_ui)

lemma commit_flag [simp]:
  "questionAudioPlayed (ui (commit prev w)) = questionAudioPlayed (ui w)"
  by (simp add: commit_def)

lemma effects_pass_played:
  "questionAudioPlayed (ui w) \<Longrightarrow> playAudioCalls (effects_pass prev w) = playAudioCalls w"
  by (simp add: effects_pass_def Let_def playEffect_def split: option.splits)

lemma commit_played:
  "questionAudioPlayed (ui w) \<Longrightarrow> playAudioCalls (commit prev w) = playAudioCalls w"
  by (simp add: commit_def effects_pass_played)

lemma stopRecording_frame [simp]:
  "playAudioCalls (stopRecording w) = playAudioCalls w"
  "loc (stopRecording w) = loc w"
  "route (stopRecording w) = route w"
  "questionAudioPlayed (ui (stopRecording w)) = questionAudioPlayed (ui w)"
  "questionAudio (ui (stopRecording w)) = questionAudio (ui w)"
  "mediaRecorder (ui (stopRecording w)) = mediaRecorder (ui w)"
  by (simp_all add: stopRecording_def recorder_stop_def split: option.splits)

lemma startRecording_frame [simp]:
  "playAudioCalls (startRecording w) = playAudioCalls w"
  "loc (startRecording w) = loc w"
  "route (startRecording w) = route w"
  "recorders (startRecording w) = recorders w"
  "questionAudioPlayed (ui (startRecording w)) = questionAudioPlayed (ui w)"
  "questionAudio (ui (startRecording w)) = questionAudio (ui w)"
  "mediaRecorder (ui (startRecording w)) = mediaRecorder (ui w)"
  by (simp_all add: startRecording_def)

lemma handleTalkClick_frame [simp]:
  "playAudioCalls (handleTalkClick w) = playAudioCalls w"
  "loc (handleTalkClick w) = loc w"
  "route (handleTalkClick w) = route w"
  "questionAudioPlayed (ui (handleTalkClick w)) = questionAudioPlayed (ui w)"
  "questionAudio (ui (handleTalkClick w)) = questionAudio (ui w)"
  "mediaRecorder (ui (handleTalkClick w)) = mediaRecorder (ui w)"
  by (simp_all add: handleTalkClick_def)

lemma handleFinish_frame [simp]:
  "playAudioCalls (handleFinish w) = playAudioCalls w"
  "loc (handleFinish w) = loc w"
  "recorders (handleFinish w) = recorders w"
  "questionAudioPlayed (ui (handleFinish w)) = questionAudioPlayed (ui w)"
  "questionAudio (ui (handleFinish w)) = questionAudio (ui w)"
  "mediaRecorder (ui (handleFinish w)) = mediaRecorder (ui w)"
  by (simp_all add: handleFinish_def Let_def)

lemma handleContinue_frame [simp]:
  "playAudioCalls (handleContinue w) = playAudioCalls w"
  "loc (handleContinue w) = loc w"
  "recorders (handleContinue w) = recorders w"
  "ui (handleContinue w) = ui w"
  by (simp_all add: handleContinue_def)

lemma micGranted_frame [simp]:
  "playAudioCalls (micGranted n w) = playAudioCalls w"
  "loc (micGranted n w) = loc w"
  "route (micGranted n w) = route w"
  "questionAudioPlayed (ui (micGranted n w)) = questionAudioPlayed (ui w)"
  "questionAudio (ui (micGranted n w)) = questionAudio (ui w)"
  by (simp_all add: micGranted_def)

lemma micDenied_frame [simp]:
  "playAudioCalls (micDenied w) = playAudioCalls w"
  "loc (micDenied w) = loc w"
  "route (micDenied w) = route w"
  "recorders (micDenied w) = recorders w"
  "questionAudioPlayed (ui (micDenied w)) = questionAudioPlayed (ui w)"
  "questionAudio (ui (micDenied w)) = questionAudio (ui w)"
  "mediaRecorder (ui (micDenied w)) = mediaRecorder (ui w)"
  by (simp_all add: micDenied_def)

lemma recorderStopTask_frame [simp]:
  "playAudioCalls (recorderStopTask r d w) = playAudioCalls w"
  "loc (recorderStopTask r d w) = loc w"
  "route (recorderStopTask r d w) = route w"
  "questionAudioPlayed (ui (recorderStopTask r d w)) = questionAudioPlayed (ui w)"
  "questionAudio (ui (recorderStopTask r d w)) = questionAudio (ui w)"
  "mediaRecorder (ui (recorderStopTask r d w)) = mediaRecorder (ui w)"
  by (simp_all add: recorderStopTask_def onstop_def ondataavailable_def Let_def)

lemma transcribeSettled_frame [simp]:
  "playAudioCalls (transcribeSettled out w) = playAudioCalls w"
  "loc (transcribeSettled out w) = loc w"
  "recorders (transcribeSettled out w) = recorders w"
  "questionAudioPlayed (ui (transcribeSettled out w)) = questionAudioPlayed (ui w)"
  "questionAudio (ui (transcribeSettled out w)) = questionAudio (ui w)"
  "mediaRecorder (ui (transcribeSettled out w)) = mediaRecorder (ui w)"
  by (cases out; simp add: transcribeSettled_def Let_def split: option.splits)+

lemma audioLoaded_frame [simp]:
  "playAudioCalls (audioLoaded w) = playAudioCalls w"
  "loc (audioLoaded w) = loc w"
  "route (audioLoaded w) = route w"
  "recorders (audioLoaded w) = recorders w"
  "questionAudio (ui (audioLoaded w)) = questionAudio (ui w)"
  "mediaRecorder (ui (audioLoaded w)) = mediaRecorder (ui w)"
  by (simp_all add: audioLoaded_def split: option.splits)

lemma audioLoaded_flag:
  "questionAudioPlayed (ui w) \<Longrightarrow> questionAudioPlayed (ui (audioLoaded w))"
  by (simp add: audioLoaded_def split: option.splits)

lemma audioFailed_frame [simp]:
  "playAudioCalls (audioFailed w) = playAudioCalls w"
  "loc (audioFailed w) = loc w"
  "route (audioFailed w) = route w"
  "recorders (audioFailed w) = recorders w"
  "questionAudioPlayed (ui (audioFailed w)) = questionAudioPlayed (ui w)"
  "questionAudio (ui (audioFailed w)) = questionAudio (ui w)"
  "mediaRecorder (ui (audioFailed w)) = mediaRecorder (ui w)"
  by (simp_all add: audioFailed_def split: option.splits)

lemma handler_flag:
  "questionAudioPlayed (ui w) \<Longrightarrow> questionAudioPlayed (ui (handler e w))"
  by (cases e) (simp_all add: handler_def audioLoaded_flag)

lemma handler_playAudioCalls [simp]:
  "playAudioCalls (handler e w) = playAudioCalls w"
  by (cases e) (simp_all add: handler_def)

lemma handler_loc [simp]:
  "loc (handler e w) = loc w"
  by (cases e) (simp_all add: handler_def)

lemma step_played:
  assumes "questionAudioPlayed (ui w)"
  shows "questionAudioPlayed (ui (step w e)) \<and> playAudioCalls (step w e) = playAudioCalls w"
  using assms
  by (simp add: step_def Let_def handler_flag commit_played)

text \<open>
  Claim C4. Once the playback of the question audio has started, that is once
  \<open>questionAudioPlayed\<close> is set, no event makes the effect call \<open>playAudio\<close> again:
  whatever happens afterwards (renders, a new blob URL from \<open>getQuestion\<close>, a new
  recorder), the number of calls stays what it was and the flag stays set.
\<close>

theorem played_once:
  assumes "questionAudioPlayed (ui w)"
  shows "playAudioCalls (run w es) = playAudioCalls w \<and> questionAudioPlayed (ui (run w es))"
  using assms unfolding run_def
proof (induction es arbitrary: w)
  case Nil
  then show ?case by simp
next
  case (Cons e es)
  from Cons.prems have "questionAudioPlayed (ui (step w e))" "playAudioCalls (step w e) = playAudioCalls w"
    using step_played by blast+
  with Cons.IH [of "step w e"] show ?case by simp
qed

section \<open>A question without audio\<close>

lemma getQuestion_no_audio:
  "\<not> truthy_str (loc_questionAudio (loc w)) \<Longrightarrow>
   questionAudio (ui (getQuestion w)) = questionAudio (ui w)"
  by (simp add: getQuestion_def Let_def truthy_str_def split: option.splits)

lemma handler_no_audio:
  "\<not> truthy_str (loc_questionAudio (loc w)) \<Longrightarrow>
   questionAudio (ui (handler e w)) = questionAudio (ui w)"
  by (cases e) (simp_all add: handler_def getQuestion_no_audio)

lemma effects_pass_no_audio:
  "\<not> truthy_str (loc_questionAudio (loc w)) \<Longrightarrow>
   questionAudio (ui (effects_pass prev w)) = questionAudio (ui w)"
  by (simp add: effects_pass_ui getQuestion_no_audio)

lemma effects_pass_silent:
  "questionAudio (ui w) = None \<Longrightarrow> playAudioCalls (effects_pass prev w) = playAudioCalls w"
  by (simp add: effects_pass_def Let_def playEffect_def)

lemma commit_silent:
  assumes "\<not> truthy_str (loc_questionAudio (loc w))" and "questionAudio (ui w) = None"
  shows "questionAudio (ui (commit prev w)) = None \<and> playAudioCalls (commit prev w) = playAudioCalls w"
  using assms by (simp add: commit_def effects_pass_no_audio effects_pass_silent)

lemma step_silent:
  assumes "\<not> truthy_str (loc_questionAudio (loc w))" and "questionAudio (ui w) = None"
  shows "loc (step w e) = loc w \<and> questionAudio (ui (step w e)) = None
         \<and> playAudioCalls (step w e) = playAudioCalls w"
  using assms by (simp add: step_def Let_def commit_silent handler_no_audio)

lemma run_silent:
  assumes "\<not> truthy_str (loc_questionAudio (loc w))" and "questionAudio (ui w) = None"
  shows "questionAudio (ui (run w es)) = None \<and> playAudioCalls (run w es) = playAudioCalls w"
  using assms unfolding run_def
proof (induction es arbitrary: w)
  case Nil
  then show ?case by simp
next
  case (Cons e es)
  have s: "loc (step w e) = loc w" "questionAudio (ui (step w e)) = None"
    "playAudioCalls (step w e) = playAudioCalls w"
    using step_silent [OF Cons.prems, of e] by simp_all
  have "\<not> truthy_str (loc_questionAudio (loc (step w e)))"
    using Cons.prems(1) s(1) by simp
  from Cons.IH [OF this s(2)] s(3) show ?case by simp
qed

lemma getQuestion_text_only:
  assumes "loc_question (loc w) = Some q" and "q \<noteq> []"
    and "\<not> truthy_str (loc_questionAudio (loc w))"
  shows "getQuestion w = w\<lparr>ui := (ui w)\<lparr>isLoading := False, error := None, question := Some q\<rparr>\<rparr>"
  using assms
  by (auto simp: getQuestion_def Let_def truthy_str_def split: option.splits)

lemma mount_text_only:
  assumes "st_question st = Some q" and "q \<noteq> []" and "\<not> truthy_str (st_questionAudio st)"
  shows "ui (mount (Some st)) = initial_state\<lparr>isLoading := False, error := None, question := Some q\<rparr>"
    and "loc (mount (Some st)) = Some st"
    and "playAudioCalls (mount (Some st)) = 0"
    and "route (mount (Some st)) = TalkRoute"
proof -
  let ?w0 = "\<lparr> ui = initial_state, loc = Some st, route = TalkRoute, recorders = [],
                 audioRef = None, responseAudioRef = None, pendingMic = 0, inflight = 0,
                 sent = [], nextUrl = 0, playAudioCalls = 0 \<rparr>"
  let ?w1 = "attach_refs ?w0"
  have g: "getQuestion ?w1 = ?w1\<lparr>ui := (ui ?w1)\<lparr>isLoading := False, error := None, question := Some q\<rparr>\<rparr>"
    by (rule getQuestion_text_only) (use assms in \<open>simp_all add: loc_question_def loc_questionAudio_def\<close>)
  have m: "mount (Some st) = effects_pass initial_state (getQuestion ?w1)"
    by (simp add: mount_def Let_def)
  show "ui (mount (Some st)) = initial_state\<lparr>isLoading := False, error := None, question := Some q\<rparr>"
    unfolding m g by (simp add: effects_pass_ui initial_state_def)
  show "loc (mount (Some st)) = Some st"
    unfolding m g by simp
  show "playAudioCalls (mount (Some st)) = 0"
    unfolding m g by (simp add: effects_pass_silent initial_state_def)
  show "route (mount (Some st)) = TalkRoute"
    unfolding m g by simp
qed

text \<open>
  Claim C3. When \<open>/analyze-drawing\<close> answers with a question and no
  \<open>questionAudio\<close>, DrawScreen navigates to \<open>/talk\<close> with that result, TalkScreen
  shows the question with both buttons enabled, no recording and no error, and
  through every later event the \<open>questionAudio\<close> state stays null and \<open>playAudio\<close> is
  never called.
\<close>

theorem text_only_question:
  assumes "pendingNext dw = img # rest" and "a_question res = Some q" and "q \<noteq> []"
    and "\<not> truthy_str (a_questionAudio res)"
  shows "navigated (draw_step dw (DAnalyzeSettled (AnalyzeOk res)))
           = Some (talk_nav (dloc dw) img res)
     \<and> render (ui (mount (Some (talk_nav (dloc dw) img res)))) = QuestionView q False False
     \<and> \<not> isRecording (ui (mount (Some (talk_nav (dloc dw) img res))))
     \<and> error (ui (mount (Some (talk_nav (dloc dw) img res)))) = None
     \<and> questionAudio (ui (run (mount (Some (talk_nav (dloc dw) img res))) es)) = None
     \<and> playAudioCalls (run (mount (Some (talk_nav (dloc dw) img res))) es) = 0"
proof -
  let ?st = "talk_nav (dloc dw) img res"
  have q: "st_question ?st = Some q" and a: "\<not> truthy_str (st_questionAudio ?st)"
    using assms by (simp_all add: talk_nav_def)
  note m = mount_text_only [OF q assms(3) a]
  have nav: "navigated (draw_step dw (DAnalyzeSettled (AnalyzeOk res))) = Some ?st"
    using assms(1) by (simp add: draw_step_def draw_enabled_def analyzeSettled_def Let_def)
  have la: "\<not> truthy_str (loc_questionAudio (loc (mount (Some ?st))))"
    using a by (simp add: m loc_questionAudio_def)
  have qa: "questionAudio (ui (mount (Some ?st))) = None"
    by (simp add: m initial_state_def)
  from run_silent [OF la qa, of es] have r:
    "questionAudio (ui (run (mount (Some ?st)) es)) = None"
    "playAudioCalls (run (mount (Some ?st)) es) = 0"
    by (simp_all add: m)
  show ?thesis
    using nav r assms(3) by (simp add: m render_def initial_state_def truthy_str_def)
qed

section \<open>Recorders and the microphone\<close>

lemma rec_recording_cong:
  "recorders w = recorders w' \<Longrightarrow> rec_recording w r = rec_recording w' r"
  by (simp add: rec_recording_def)

lemma nth_update_rstate:
  "r' < length xs \<Longrightarrow>
   rstate (xs[r := x] ! r') = (if r' = r then rstate x else rstate (xs ! r'))"
  by (cases "r < length xs") (simp_all add: nth_list_update)

lemma rec_recording_stop:
  "rec_recording (recorder_stop r w) r' = (rec_recording w r' \<and> r' \<noteq> r)"
  by (auto simp: rec_recording_def recorder_stop_def nth_update_rstate split: if_splits)

lemma cleanup_recorders:
  "recorders (cleanup mr w) =
     (case mr of None \<Rightarrow> recorders w
      | Some r \<Rightarrow> if rec_recording w r then recorders (recorder_stop r w) else recorders w)"
  by (simp add: cleanup_def Let_def split: option.splits)

lemma rec_recording_cleanup:
  "rec_recording (cleanup mr w) r' = (rec_recording w r' \<and> mr \<noteq> Some r')"
proof (cases mr)
  case None
  then have "recorders (cleanup mr w) = recorders w" by (simp add: cleanup_recorders)
  from rec_recording_cong [OF this] None show ?thesis by simp
next
  case (Some r)
  show ?thesis
  proof (cases "rec_recording w r")
    case True
    with Some have "recorders (cleanup mr w) = recorders (recorder_stop r w)"
      by (simp add: cleanup_recorders)
    from rec_recording_cong [OF this] Some show ?thesis
      by (auto simp: rec_recording_stop)
  next
    case False
    with Some have "recorders (cleanup mr w) = recorders w"
      by (simp add: cleanup_recorders)
    from rec_recording_cong [OF this] Some False show ?thesis by auto
  qed
qed

lemma effects_pass_recorders:
  "recorders (effects_pass prev w) =
     (if mediaRecorder (ui w) \<noteq> mediaRecorder prev
      then recorders (cleanup (mediaRecorder prev) w) else recorders w)"
  by (simp add: effects_pass_def Let_def cleanup_def recorder_stop_def rec_recording_def
        split: option.splits)

lemma commit_recorders:
  "recorders (commit prev w) =
     (if mediaRecorder (ui w) \<noteq> mediaRecorder prev
      then recorders (cleanup (mediaRecorder prev) w) else recorders w)"
  by (simp add: commit_def effects_pass_recorders)

lemma rec_recording_commit:
  "rec_recording (commit prev w) r =
     (if mediaRecorder (ui w) \<noteq> mediaRecorder prev
      then rec_recording w r \<and> mediaRecorder prev \<noteq> Some r else rec_recording w r)"
proof (cases "mediaRecorder (ui w) \<noteq> mediaRecorder prev")
  case True
  then have "recorders (commit prev w) = recorders (cleanup (mediaRecorder prev) w)"
    by (simp add: commit_recorders)
  from rec_recording_cong [OF this] show ?thesis
    using True by (simp add: rec_recording_cleanup)
next
  case False
  then have "recorders (commit prev w) = recorders w"
    by (simp add: commit_recorders)
  from rec_recording_cong [OF this] show ?thesis
    using False by simp
qed

lemma commit_mediaRecorder [simp]:
  "mediaRecorder (ui (commit prev w)) = mediaRecorder (ui w)"
  by (simp add: commit_def)

lemma stopRecording_recorders:
  "recorders (stopRecording w) =
     (case mediaRecorder (ui w) of None \<Rightarrow> recorders w
      | Some r \<Rightarrow> if rec_recording w r then recorders (recorder_stop r w) else recorders w)"
  by (simp add: stopRecording_def split: option.splits)

lemma stopRecording_as_cleanup:
  "recorders (stopRecording w) = recorders (cleanup (mediaRecorder (ui w)) w)"
  by (simp add: stopRecording_recorders cleanup_recorders)

lemma rec_recording_stopRecording:
  "rec_recording (stopRecording w) r = (rec_recording w r \<and> mediaRecorder (ui w) \<noteq> Some r)"
  using rec_recording_cong [OF stopRecording_as_cleanup, of w r]
  by (simp add: rec_recording_cleanup)

lemma recorderStopTask_recorders:
  "recorders (recorderStopTask r d w) =
     (recorders w)[r := (recorders w ! r)\<lparr>tracks := map (\<lambda>t. Ended) (tracks (recorders w ! r)),
                                            stopQueued := False\<rparr>]"
  by (cases "r < length (recorders w)")
     (simp_all add: recorderStopTask_def onstop_def ondataavailable_def Let_def
        list_update_beyond not_less)

lemma rec_recording_task:
  "rec_recording (recorderStopTask r d w) r' = rec_recording w r'"
  by (auto simp: rec_recording_def recorderStopTask_recorders nth_update_rstate split: if_splits)

lemma rec_recording_granted:
  "rec_recording (micGranted n w) r = (rec_recording w r \<or> r = length (recorders w))"
  by (auto simp: micGranted_def rec_recording_def nth_append)

lemma handler_rec:
  "rec_recording (handler e w) r \<Longrightarrow>
   rec_recording w r \<or> (\<exists>n. e = MicGranted n \<and> r = length (recorders w))"
proof (cases e)
  case ClickTalk
  assume "rec_recording (handler e w) r"
  then show ?thesis using ClickTalk
    by (auto simp: handler_def handleTalkClick_def rec_recording_cong [of "startRecording w" w]
          rec_recording_stopRecording split: if_splits)
next
  case (MicGranted n)
  assume "rec_recording (handler e w) r"
  then show ?thesis using MicGranted by (simp add: handler_def rec_recording_granted)
next
  case (RecorderStopTask r' d)
  assume "rec_recording (handler e w) r"
  then show ?thesis using RecorderStopTask by (simp add: handler_def rec_recording_task)
qed (simp_all add: handler_def rec_recording_def)

lemma handler_mediaRecorder:
  "mediaRecorder (ui (handler e w)) =
     (case e of MicGranted n \<Rightarrow> Some (length (recorders w)) | _ \<Rightarrow> mediaRecorder (ui w))"
  by (cases e) (simp_all add: handler_def micGranted_def)

lemma handler_route_granted:
  "route (handler (MicGranted n) w) = route w"
  by (simp add: handler_def)

lemma step_only_current:
  assumes inv: "\<forall>r. rec_recording w r \<longrightarrow> mediaRecorder (ui w) = Some r"
    and mounted: "route w = TalkRoute" "route (step w e) = TalkRoute"
  shows "\<forall>r. rec_recording (step w e) r \<longrightarrow> mediaRecorder (ui (step w e)) = Some r"
proof (cases "enabled w e")
  case False
  then show ?thesis using inv by (simp add: step_def)
next
  case True
  let ?w1 = "handler e w"
  from mounted True have r1: "route ?w1 = TalkRoute"
    by (auto simp: step_def Let_def split: if_splits)
  with mounted True have s: "step w e = commit (ui w) ?w1"
    by (simp add: step_def Let_def)
  show ?thesis
  proof (intro allI impI)
    fix r assume rr: "rec_recording (step w e) r"
    then have c: "rec_recording ?w1 r"
      and d: "mediaRecorder (ui ?w1) \<noteq> mediaRecorder (ui w) \<longrightarrow> mediaRecorder (ui w) \<noteq> Some r"
      unfolding s by (auto simp: rec_recording_commit split: if_splits)
    from handler_rec [OF c] show "mediaRecorder (ui (step w e)) = Some r"
    proof
      assume old: "rec_recording w r"
      with inv have m: "mediaRecorder (ui w) = Some r" by simp
      with d have "mediaRecorder (ui ?w1) = mediaRecorder (ui w)" by auto
      with m show ?thesis unfolding s by simp
    next
      assume "\<exists>n. e = MicGranted n \<and> r = length (recorders w)"
      then show ?thesis unfolding s by (auto simp: handler_mediaRecorder)
    qed
  qed
qed

lemma handler_route_mono:
  "route w \<noteq> TalkRoute \<Longrightarrow> route (handler e w) \<noteq> TalkRoute"
  by (cases e; cases "route w")
     (simp_all add: handler_def handleFinish_def handleContinue_def transcribeSettled_def Let_def
        split: fetch_outcome.splits option.splits)

lemma step_route_mono:
  "route w \<noteq> TalkRoute \<Longrightarrow> route (step w e) \<noteq> TalkRoute"
  by (simp add: step_def Let_def handler_route_mono)

lemma mount_recorders [simp]: "recorders (mount st) = []"
  by (simp add: mount_def Let_def effects_pass_recorders initial_state_def)

lemma run_only_current:
  assumes "route (run (mount st) es) = TalkRoute"
  shows "\<forall>r. rec_recording (run (mount st) es) r
              \<longrightarrow> mediaRecorder (ui (run (mount st) es)) = Some r"
  using assms
proof (induction es rule: rev_induct)
  case Nil
  then show ?case by (simp add: run_def rec_recording_def)
next
  case (snoc e es)
  have r: "run (mount st) (es @ [e]) = step (run (mount st) es) e"
    by (simp add: run_def)
  from snoc.prems have t: "route (run (mount st) es) = TalkRoute"
    unfolding r using step_route_mono by blast
  from step_only_current [OF snoc.IH [OF t] t] snoc.prems show ?case
    unfolding r by simp
qed

lemma list_all_update:
  "list_all P xs \<Longrightarrow> P x \<Longrightarrow> list_all P (xs[i := x])"
  by (induction xs arbitrary: i) (auto split: nat.splits)

lemma stale_cong:
  "recorders w = recorders w' \<Longrightarrow> no_stale_tracks w = no_stale_tracks w'"
  by (simp add: no_stale_tracks_def)

lemma stale_stop: "no_stale_tracks w \<Longrightarrow> no_stale_tracks (recorder_stop r w)"
  by (simp add: no_stale_tracks_def recorder_stop_def list_all_update no_stale_track_def)

lemma stale_cleanup: "no_stale_tracks w \<Longrightarrow> no_stale_tracks (cleanup mr w)"
proof -
  assume a: "no_stale_tracks w"
  have "recorders (cleanup mr w) = recorders w
        \<or> (\<exists>r. recorders (cleanup mr w) = recorders (recorder_stop r w))"
    by (cases mr) (auto simp: cleanup_recorders)
  then show ?thesis
    using a stale_stop stale_cong [of "cleanup mr w"] by metis
qed

lemma no_stale_track_ended:
  "no_stale_track (rc\<lparr>tracks := map (\<lambda>t. Ended) (tracks rc), stopQueued := False\<rparr>)"
  by (simp add: no_stale_track_def list_all_iff)

lemma stale_task: "no_stale_tracks w \<Longrightarrow> no_stale_tracks (recorderStopTask r d w)"
  unfolding no_stale_tracks_def recorderStopTask_recorders
  by (rule list_all_update) (simp_all add: no_stale_track_ended)

lemma stale_granted: "no_stale_tracks w \<Longrightarrow> no_stale_tracks (micGranted n w)"
  by (simp add: no_stale_tracks_def micGranted_def no_stale_track_def)

lemma stale_handler: "no_stale_tracks w \<Longrightarrow> no_stale_tracks (handler e w)"
proof (cases e)
  case ClickTalk
  assume a: "no_stale_tracks w"
  have "no_stale_tracks (stopRecording w)"
    using stale_cleanup [OF a] stale_cong [OF stopRecording_as_cleanup] by simp
  moreover have "no_stale_tracks (startRecording w)"
    using a by (simp add: no_stale_tracks_def)
  ultimately show ?thesis using ClickTalk by (simp add: handler_def handleTalkClick_def)
next
  case (MicGranted n)
  assume "no_stale_tracks w"
  then show ?thesis using MicGranted by (simp add: handler_def stale_granted)
next
  case (RecorderStopTask r d)
  assume "no_stale_tracks w"
  then show ?thesis using RecorderStopTask by (simp add: handler_def stale_task)
qed (simp_all add: handler_def no_stale_tracks_def)

lemma stale_commit: "no_stale_tracks w \<Longrightarrow> no_stale_tracks (commit prev w)"
proof (cases "mediaRecorder (ui w) \<noteq> mediaRecorder prev")
  case True
  assume a: "no_stale_tracks w"
  from True have "recorders (commit prev w) = recorders (cleanup (mediaRecorder prev) w)"
    by (simp add: commit_recorders)
  from stale_cong [OF this] stale_cleanup [OF a] show ?thesis by simp
next
  case False
  assume a: "no_stale_tracks w"
  from False have "recorders (commit prev w) = recorders w"
    by (simp add: commit_recorders)
  from stale_cong [OF this] a show ?thesis by simp
qed

lemma stale_step: "no_stale_tracks w \<Longrightarrow> no_stale_tracks (step w e)"
proof -
  assume a: "no_stale_tracks w"
  have h: "no_stale_tracks (handler e w)" by (rule stale_handler [OF a])
  have "no_stale_tracks ((handler e w)\<lparr>ui := ui w\<rparr>)"
    using h by (simp add: no_stale_tracks_def)
  moreover have "no_stale_tracks (detach_refs (handler e w))"
    using h by (simp add: no_stale_tracks_def)
  ultimately show ?thesis
    using a h by (simp add: step_def Let_def stale_cleanup stale_commit)
qed

lemma stale_run: "no_stale_tracks w \<Longrightarrow> no_stale_tracks (run w es)"
  unfolding run_def by (induction es arbitrary: w) (simp_all add: stale_step)

lemma stale_mount: "no_stale_tracks (mount st)"
  by (simp add: no_stale_tracks_def)

lemma step_unmount:
  assumes "route w = TalkRoute" and "enabled w e" and "route (step w e) \<noteq> TalkRoute"
  shows "step w e = cleanup (mediaRecorder (ui w)) (detach_refs (handler e w))"
    and "route (handler e w) \<noteq> TalkRoute"
  using assms by (auto simp: step_def Let_def split: if_splits)

lemma rec_recording_detach [simp]:
  "rec_recording (detach_refs w) r = rec_recording w r"
  by (simp add: rec_recording_def)

lemma all_stopped_iff:
  "all_stopped w = (no_stale_tracks w \<and> (\<forall>r. \<not> rec_recording w r))"
proof -
  have "\<And>rc. rec_stopped rc = (no_stale_track rc \<and> rstate rc \<noteq> Recording)"
    by (case_tac "rstate rc") (auto simp: rec_stopped_def no_stale_track_def)
  then show ?thesis
    by (auto simp: all_stopped_def no_stale_tracks_def rec_recording_def list_all_length)
qed

lemma task_releases:
  assumes "enabled w (RecorderStopTask r d)"
  shows "list_all (\<lambda>t. t = Ended) (tracks (recorders (step w (RecorderStopTask r d)) ! r))
         \<and> \<not> stopQueued (recorders (step w (RecorderStopTask r d)) ! r)"
proof -
  let ?w1 = "handler (RecorderStopTask r d) w"
  from assms have lt: "r < length (recorders w)" by (simp add: enabled_def)
  have rs: "recorders (step w (RecorderStopTask r d)) = recorders ?w1"
    using assms
    by (simp add: step_def Let_def commit_recorders handler_def)
  show ?thesis
    unfolding rs using lt
    by (simp add: handler_def recorderStopTask_recorders list_all_iff)
qed

text \<open>
  Claim C9, as the code has it. In every state the screen can reach, a recorder that
  is no longer recording and whose \<open>stop\<close> task has run has all its tracks ended.
  When the screen is left (its own navigation or the user's), every recorder is
  stopped: it is inactive, and its tracks are ended or the task that ends them is
  queued. The same holds when the user stops the recording. The task queued by
  \<open>stop()\<close> runs \<open>onstop\<close>, which ends all the tracks of that recorder: the
  microphone is released then, on both paths, and not before.
\<close>

theorem microphone_released:
  fixes st :: "nav_state option" and es :: "event list"
  defines "w \<equiv> run (mount st) es"
  shows "no_stale_tracks w
     \<and> (route w = TalkRoute \<and> enabled w e \<and> route (step w e) \<noteq> TalkRoute \<longrightarrow>
          all_stopped (step w e))
     \<and> (enabled w ClickTalk \<and> isRecording (ui w) \<longrightarrow> all_stopped (step w ClickTalk))
     \<and> (enabled w (RecorderStopTask r d) \<longrightarrow>
          list_all (\<lambda>t. t = Ended) (tracks (recorders (step w (RecorderStopTask r d)) ! r))
          \<and> \<not> stopQueued (recorders (step w (RecorderStopTask r d)) ! r))"
proof (intro conjI impI)
  show rel: "no_stale_tracks w"
    unfolding w_def by (rule stale_run [OF stale_mount])
  {
    assume a: "route w = TalkRoute \<and> enabled w e \<and> route (step w e) \<noteq> TalkRoute"
    then have s: "step w e = cleanup (mediaRecorder (ui w)) (detach_refs (handler e w))"
      and h: "route (handler e w) \<noteq> TalkRoute"
      using step_unmount [of w e] by simp_all
    have inv: "\<forall>r. rec_recording w r \<longrightarrow> mediaRecorder (ui w) = Some r"
      using a run_only_current [of st es] by (simp add: w_def)
    have none: "\<forall>r'. \<not> rec_recording (step w e) r'"
    proof (intro allI notI)
      fix r' assume "rec_recording (step w e) r'"
      then have c: "rec_recording (handler e w) r'" and n: "mediaRecorder (ui w) \<noteq> Some r'"
        unfolding s by (simp_all add: rec_recording_cleanup)
      from handler_rec [OF c] show False
      proof
        assume "rec_recording w r'"
        with inv n show False by simp
      next
        assume "\<exists>n. e = MicGranted n \<and> r' = length (recorders w)"
        then obtain n where "e = MicGranted n" by blast
        with h a show False by (simp add: handler_route_granted)
      qed
    qed
    with stale_step [OF rel, of e] show "all_stopped (step w e)"
      by (simp add: all_stopped_iff)
  }
  {
    assume a: "enabled w ClickTalk \<and> isRecording (ui w)"
    then have t: "route w = TalkRoute" by (simp add: enabled_def)
    have inv: "\<forall>r. rec_recording w r \<longrightarrow> mediaRecorder (ui w) = Some r"
      using t run_only_current [of st es] by (simp add: w_def)
    have s: "step w ClickTalk = commit (ui w) (stopRecording w)"
      using a t by (simp add: step_def Let_def handler_def handleTalkClick_def)
    have "\<forall>r'. \<not> rec_recording (step w ClickTalk) r'"
      unfolding s using inv
      by (auto simp: rec_recording_commit rec_recording_stopRecording)
    with stale_step [OF rel, of ClickTalk] show "all_stopped (step w ClickTalk)"
      by (simp add: all_stopped_iff)
  }
  {
    assume en: "enabled w (RecorderStopTask r d)"
    from task_releases [OF en]
    show "list_all (\<lambda>t. t = Ended) (tracks (recorders (step w (RecorderStopTask r d)) ! r))"
      by simp
    from task_releases [OF en]
    show "\<not> stopQueued (recorders (step w (RecorderStopTask r d)) ! r)"
      by simp
  }
qed

section \<open>The end of a submission\<close>

lemma handler_route_end:
  "route w = EndRoute \<Longrightarrow> e \<noteq> NavigateAway \<Longrightarrow> route (handler e w) = EndRoute"
  by (cases e)
     (simp_all add: handler_def handleFinish_def handleContinue_def transcribeSettled_def Let_def
        split: fetch_outcome.splits option.splits)

lemma step_at_end:
  "route w = EndRoute \<Longrightarrow> route (step w e) = EndRoute \<and> ui (step w e) = ui w"
proof (cases "e = NavigateAway")
  case True
  assume "route w = EndRoute"
  then show ?thesis using True by (simp add: step_def enabled_def)
next
  case False
  assume "route w = EndRoute"
  then show ?thesis using False by (simp add: step_def Let_def handler_route_end)
qed

lemma run_at_end:
  "route w = EndRoute \<Longrightarrow> route (run w es) = EndRoute \<and> ui (run w es) = ui w"
  unfolding run_def
  by (induction es arbitrary: w) (simp_all add: step_at_end)

text \<open>
  Claim C1. While a request is awaited and no response is shown, a successful answer
  with no \<open>response\<close> (absent, null or empty) navigates to \<open>/end\<close>; the response
  view is not shown then, nor after any later event.
\<close>

theorem no_response_finishes:
  assumes "route w = TalkRoute" and "inflight w > 0" and "\<not> showResponse (ui w)"
    and "\<not> truthy_str (r_response res)"
  shows "route (run (step w (TranscribeSettled (HttpOk res))) es) = EndRoute
         \<and> \<not> showResponse (ui (run (step w (TranscribeSettled (HttpOk res))) es))"
proof -
  let ?w = "step w (TranscribeSettled (HttpOk res))"
  have "route ?w = EndRoute \<and> \<not> showResponse (ui ?w)"
    using assms
    by (simp add: step_def enabled_def handler_def transcribeSettled_def Let_def)
  then show ?thesis using run_at_end [of ?w es] by simp
qed

theorem no_response_finishes_witness:
  "route submitting0 = TalkRoute \<and> inflight submitting0 > 0
   \<and> \<not> showResponse (ui submitting0) \<and> \<not> truthy_str (r_response no_response)
   \<and> route (run (step submitting0 (TranscribeSettled (HttpOk no_response))) [ClickContinue])
       = EndRoute
   \<and> \<not> showResponse
         (ui (run (step submitting0 (TranscribeSettled (HttpOk no_response))) [ClickContinue]))"
proof -
  have h1: "route submitting0 = TalkRoute" by code_simp
  have h2: "inflight submitting0 > 0" by code_simp
  have h3: "\<not> showResponse (ui submitting0)" by code_simp
  have h4: "\<not> truthy_str (r_response no_response)" by code_simp
  from no_response_finishes [OF h1 h2 h3 h4, of "[ClickContinue]"] h1 h2 h3 h4
  show ?thesis by simp
qed

section \<open>Single events\<close>

lemma commit_same:
  "mediaRecorder (ui w) = mediaRecorder prev \<Longrightarrow> questionAudio (ui w) = questionAudio prev
   \<Longrightarrow> questionAudioPlayed (ui w) = questionAudioPlayed prev
   \<Longrightarrow> responseAudio (ui w) = responseAudio prev
   \<Longrightarrow> commit prev w = attach_refs (attach_refs w)"
  by (simp add: commit_def effects_pass_def Let_def)

text \<open>
  Claim C2, as the code has it. When the awaited request fails (network error,
  non-ok status, or a body that is not JSON), the screen stays on \<open>/talk\<close>, shows
  the error \<open>Could not save your recording. Try again!\<close> and is no longer loading;
  the recorded chunks and the has-recording flag are what they were: nothing is
  discarded.
\<close>

theorem failure_keeps_recording:
  assumes "route w = TalkRoute" and "inflight w > 0" and "is_failure out"
  shows "route (step w (TranscribeSettled out)) = TalkRoute
     \<and> ui (step w (TranscribeSettled out)) =
         (ui w)\<lparr>error := Some ''Could not save your recording. Try again!'', isLoading := False\<rparr>
     \<and> hasRecording (ui (step w (TranscribeSettled out))) = hasRecording (ui w)
     \<and> recordedChunks (ui (step w (TranscribeSettled out))) = recordedChunks (ui w)
     \<and> isRecording (ui (step w (TranscribeSettled out))) = isRecording (ui w)
     \<and> render (ui (step w (TranscribeSettled out))) =
         ErrorView ''Could not save your recording. Try again!''
     \<and> inflight (step w (TranscribeSettled out)) = inflight w - 1
     \<and> sent (step w (TranscribeSettled out)) = sent w"
proof -
  let ?w1 = "w\<lparr>inflight := inflight w - 1,
       ui := (ui w)\<lparr>error := Some ''Could not save your recording. Try again!'', isLoading := False\<rparr>\<rparr>"
  have h: "handler (TranscribeSettled out) w = ?w1"
    using assms(3)
    by (cases out) (simp_all add: handler_def transcribeSettled_def Let_def is_failure_def)
  have "step w (TranscribeSettled out) = commit (ui w) ?w1"
    using assms(1,2) by (simp add: step_def enabled_def h Let_def)
  also have "\<dots> = attach_refs (attach_refs ?w1)"
    by (rule commit_same) simp_all
  finally have s: "step w (TranscribeSettled out) = attach_refs (attach_refs ?w1)" .
  show ?thesis
    unfolding s using assms(1) by (simp add: render_def truthy_str_def)
qed

theorem failure_keeps_recording_witness:
  "route submitting0 = TalkRoute \<and> inflight submitting0 > 0 \<and> is_failure NetworkError
   \<and> route (step submitting0 (TranscribeSettled NetworkError)) = TalkRoute
   \<and> hasRecording (ui (step submitting0 (TranscribeSettled NetworkError)))
   \<and> recordedChunks (ui (step submitting0 (TranscribeSettled NetworkError))) = [blob0]
   \<and> render (ui (step submitting0 (TranscribeSettled NetworkError))) =
       ErrorView ''Could not save your recording. Try again!''"
proof -
  have h1: "route submitting0 = TalkRoute" by code_simp
  have h2: "inflight submitting0 > 0" by code_simp
  have h3: "is_failure NetworkError" by code_simp
  have h4: "hasRecording (ui submitting0)" by code_simp
  have h5: "recordedChunks (ui submitting0) = [blob0]" by code_simp
  note t = failure_keeps_recording [OF h1 h2 h3]
  from t have t': "route (step submitting0 (TranscribeSettled NetworkError)) = TalkRoute
     \<and> hasRecording (ui (step submitting0 (TranscribeSettled NetworkError)))
         = hasRecording (ui submitting0)
     \<and> recordedChunks (ui (step submitting0 (TranscribeSettled NetworkError)))
         = recordedChunks (ui submitting0)
     \<and> render (ui (step submitting0 (TranscribeSettled NetworkError))) =
         ErrorView ''Could not save your recording. Try again!''"
    by blast
  from t' h1 h2 h3 h4 h5 show ?thesis by simp
qed

text \<open>
  Claim C2 as stated fails: after a failed request the flag is still set and the
  chunk is still there, and without any new recording the retry button and the
  finish button send the same audio a second time.
\<close>

theorem failure_discards_nothing:
  "hasRecording (ui (run (mount loc0) (recorded blob0 @ [ClickFinish, TranscribeSettled NetworkError])))
   \<and> recordedChunks (ui (run (mount loc0) (recorded blob0 @ [ClickFinish, TranscribeSettled NetworkError])))
       = [blob0]
   \<and> map_option (\<lambda>w. map audio (sent w))
        (run_checked (mount loc0)
           (recorded blob0 @ [ClickFinish, TranscribeSettled NetworkError, ClickRetry, ClickFinish]))
       = Some [Blob [1, 2, 3] ''audio/webm'', Blob [1, 2, 3] ''audio/webm'']"
  by code_simp

text \<open>
  Claim C8. When \<open>getUserMedia\<close> rejects, the screen stays on \<open>/talk\<close>, no recorder
  is created, the recording flag, the stored recorder, the chunks and the
  has-recording flag are unchanged, and the error
  \<open>Could not access microphone. Please check permissions.\<close> is set and shown
  (behind the spinner while a request is loading).
\<close>

theorem mic_denied_stays:
  assumes "route w = TalkRoute" and "pendingMic w > 0"
  shows "route (step w MicDenied) = TalkRoute
     \<and> ui (step w MicDenied) =
         (ui w)\<lparr>error := Some ''Could not access microphone. Please check permissions.''\<rparr>
     \<and> isRecording (ui (step w MicDenied)) = isRecording (ui w)
     \<and> mediaRecorder (ui (step w MicDenied)) = mediaRecorder (ui w)
     \<and> recordedChunks (ui (step w MicDenied)) = recordedChunks (ui w)
     \<and> hasRecording (ui (step w MicDenied)) = hasRecording (ui w)
     \<and> recorders (step w MicDenied) = recorders w
     \<and> render (ui (step w MicDenied)) =
         (if isLoading (ui w) then Spinner
          else ErrorView ''Could not access microphone. Please check permissions.'')"
proof -
  let ?w1 = "w\<lparr>ui := (ui w)\<lparr>error := Some ''Could not access microphone. Please check permissions.''\<rparr>,
       pendingMic := pendingMic w - 1\<rparr>"
  have "step w MicDenied = commit (ui w) ?w1"
    using assms by (simp add: step_def enabled_def handler_def micDenied_def Let_def)
  also have "\<dots> = attach_refs (attach_refs ?w1)"
    by (rule commit_same) simp_all
  finally have s: "step w MicDenied = attach_refs (attach_refs ?w1)" .
  show ?thesis
    unfolding s using assms(1) by (simp add: render_def truthy_str_def)
qed

theorem mic_denied_stays_witness:
  "route asking_mic = TalkRoute \<and> pendingMic asking_mic > 0
   \<and> \<not> isRecording (ui (step asking_mic MicDenied))
   \<and> mediaRecorder (ui (step asking_mic MicDenied)) = None
   \<and> recordedChunks (ui (step asking_mic MicDenied)) = []
   \<and> \<not> hasRecording (ui (step asking_mic MicDenied))
   \<and> recorders (step asking_mic MicDenied) = []
   \<and> render (ui (step asking_mic MicDenied)) =
       ErrorView ''Could not access microphone. Please check permissions.''"
proof -
  have h1: "route asking_mic = TalkRoute" by code_simp
  have h2: "pendingMic asking_mic > 0" by code_simp
  have h3: "\<not> isRecording (ui asking_mic)" "mediaRecorder (ui asking_mic) = None"
    "recordedChunks (ui asking_mic) = []" "\<not> hasRecording (ui asking_mic)"
    "recorders asking_mic = []" "\<not> isLoading (ui asking_mic)"
    by code_simp+
  note t = mic_denied_stays [OF h1 h2]
  from t have t': "isRecording (ui (step asking_mic MicDenied)) = isRecording (ui asking_mic)
     \<and> mediaRecorder (ui (step asking_mic MicDenied)) = mediaRecorder (ui asking_mic)
     \<and> recordedChunks (ui (step asking_mic MicDenied)) = recordedChunks (ui asking_mic)
     \<and> hasRecording (ui (step asking_mic MicDenied)) = hasRecording (ui asking_mic)
     \<and> recorders (step asking_mic MicDenied) = recorders asking_mic
     \<and> render (ui (step asking_mic MicDenied)) =
         (if isLoading (ui asking_mic) then Spinner
          else ErrorView ''Could not access microphone. Please check permissions.'')"
    by blast
  from t' h1 h2 h3 show ?thesis by simp
qed

lemma enabled_finish_iff:
  "enabled w ClickFinish =
     (route w = TalkRoute \<and> \<not> isLoading (ui w) \<and> \<not> truthy_str (error (ui w))
      \<and> \<not> showResponse (ui w))"
  by (simp add: enabled_def render_def)

lemma enabled_talk_iff:
  "enabled w ClickTalk =
     (route w = TalkRoute \<and> \<not> isLoading (ui w) \<and> \<not> truthy_str (error (ui w))
      \<and> \<not> showResponse (ui w))"
  by (simp add: enabled_def render_def)

text \<open>
  Claim C10. Finishing with a recording while \<open>drawingId\<close> or \<open>questionId\<close> is
  falsy (missing, null, 0, or empty) sends no request: the error
  \<open>Missing drawing or question ID.\<close> is set and shown, nothing else of the state
  changes, and the screen stays on \<open>/talk\<close>.
\<close>

theorem missing_ids_no_request:
  assumes "enabled w ClickFinish" and "hasRecording (ui w)"
    and "\<not> truthy (loc_drawingId (loc w)) \<or> \<not> truthy (loc_questionId (loc w))"
  shows "inflight (step w ClickFinish) = inflight w
     \<and> sent (step w ClickFinish) = sent w
     \<and> route (step w ClickFinish) = TalkRoute
     \<and> ui (step w ClickFinish) = (ui w)\<lparr>error := Some ''Missing drawing or question ID.''\<rparr>
     \<and> recorders (step w ClickFinish) = recorders w
     \<and> render (ui (step w ClickFinish)) = ErrorView ''Missing drawing or question ID.''"
proof -
  from assms(1) have en: "route w = TalkRoute" "\<not> isLoading (ui w)"
    by (simp_all add: enabled_finish_iff)
  let ?w1 = "w\<lparr>ui := (ui w)\<lparr>isLoading := False, error := Some ''Missing drawing or question ID.''\<rparr>\<rparr>"
  have h: "handler ClickFinish w = ?w1"
    using assms(2,3) by (auto simp: handler_def handleFinish_def Let_def)
  have "step w ClickFinish = commit (ui w) ?w1"
    using assms(1) en by (simp add: step_def h Let_def)
  also have "\<dots> = attach_refs (attach_refs ?w1)"
    by (rule commit_same) simp_all
  finally have s: "step w ClickFinish = attach_refs (attach_refs ?w1)" .
  have u: "(ui w)\<lparr>isLoading := False, error := Some ''Missing drawing or question ID.''\<rparr>
           = (ui w)\<lparr>error := Some ''Missing drawing or question ID.''\<rparr>"
    using en(2) by simp
  show ?thesis
    unfolding s using en by (simp add: render_def truthy_str_def u)
qed

theorem missing_ids_no_request_witness:
  "enabled recorded_no_ids ClickFinish \<and> hasRecording (ui recorded_no_ids)
   \<and> \<not> truthy (loc_drawingId (loc recorded_no_ids))
   \<and> inflight (step recorded_no_ids ClickFinish) = 0
   \<and> sent (step recorded_no_ids ClickFinish) = []
   \<and> route (step recorded_no_ids ClickFinish) = TalkRoute
   \<and> render (ui (step recorded_no_ids ClickFinish)) = ErrorView ''Missing drawing or question ID.''"
proof -
  have h1: "enabled recorded_no_ids ClickFinish" by code_simp
  have h2: "hasRecording (ui recorded_no_ids)" by code_simp
  have h3: "\<not> truthy (loc_drawingId (loc recorded_no_ids))" by code_simp
  have h4: "inflight recorded_no_ids = 0" "sent recorded_no_ids = []"
    by code_simp+
  from h3 have h3': "\<not> truthy (loc_drawingId (loc recorded_no_ids))
      \<or> \<not> truthy (loc_questionId (loc recorded_no_ids))" by simp
  note t = missing_ids_no_request [OF h1 h2 h3']
  from t have t': "inflight (step recorded_no_ids ClickFinish) = inflight recorded_no_ids
     \<and> sent (step recorded_no_ids ClickFinish) = sent recorded_no_ids
     \<and> route (step recorded_no_ids ClickFinish) = TalkRoute
     \<and> render (ui (step recorded_no_ids ClickFinish)) = ErrorView ''Missing drawing or question ID.''"
    by blast
  from t' h1 h2 h3 h4 show ?thesis by simp
qed

text \<open>
  Claim C7. Finishing with a completed recording whose chunk list is empty, with
  both ids present, sends the request all the same, with an empty
  \<open>audio/webm\<close> blob.
\<close>

theorem empty_recording_submitted:
  assumes "enabled w ClickFinish" and "hasRecording (ui w)" and "recordedChunks (ui w) = []"
    and "truthy (loc_drawingId (loc w))" and "truthy (loc_questionId (loc w))"
  shows "sent (step w ClickFinish) =
           sent w @ [\<lparr>audio = Blob [] ''audio/webm'', audio_filename = ''recording.webm'',
                      drawing_id = parseInt_val (loc_drawingId (loc w)),
                      question_id = parseInt_val (loc_questionId (loc w))\<rparr>]
     \<and> inflight (step w ClickFinish) = Suc (inflight w)
     \<and> route (step w ClickFinish) = TalkRoute
     \<and> isLoading (ui (step w ClickFinish))"
proof -
  from assms(1) have en: "route w = TalkRoute" "\<not> isLoading (ui w)"
    by (simp_all add: enabled_finish_iff)
  let ?w1 = "w\<lparr>ui := (ui w)\<lparr>isLoading := True, error := None\<rparr>,
                inflight := Suc (inflight w),
                sent := sent w @ [\<lparr>audio = Blob [] ''audio/webm'', audio_filename = ''recording.webm'',
                      drawing_id = parseInt_val (loc_drawingId (loc w)),
                      question_id = parseInt_val (loc_questionId (loc w))\<rparr>]\<rparr>"
  have h: "handler ClickFinish w = ?w1"
    using assms(2-5) by (auto simp: handler_def handleFinish_def Let_def new_Blob_def)
  have "step w ClickFinish = commit (ui w) ?w1"
    using assms(1) en by (simp add: step_def h Let_def)
  also have "\<dots> = attach_refs (attach_refs ?w1)"
    by (rule commit_same) simp_all
  finally have s: "step w ClickFinish = attach_refs (attach_refs ?w1)" .
  show ?thesis
    unfolding s using en by simp
qed

theorem empty_recording_submitted_witness:
  "enabled recorded_empty ClickFinish \<and> hasRecording (ui recorded_empty)
   \<and> recordedChunks (ui recorded_empty) = []
   \<and> truthy (loc_drawingId (loc recorded_empty)) \<and> truthy (loc_questionId (loc recorded_empty))
   \<and> sent (step recorded_empty ClickFinish) =
       [\<lparr>audio = Blob [] ''audio/webm'', audio_filename = ''recording.webm'',
         drawing_id = Some 42, question_id = Some 7\<rparr>]
   \<and> inflight (step recorded_empty ClickFinish) = 1"
proof -
  have h1: "enabled recorded_empty ClickFinish" by code_simp
  have h2: "hasRecording (ui recorded_empty)" by code_simp
  have h3: "recordedChunks (ui recorded_empty) = []" by code_simp
  have h4: "truthy (loc_drawingId (loc recorded_empty))" by code_simp
  have h5: "truthy (loc_questionId (loc recorded_empty))" by code_simp
  have h6: "sent recorded_empty = []" "inflight recorded_empty = 0"
    "parseInt_val (loc_drawingId (loc recorded_empty)) = Some 42"
    "parseInt_val (loc_questionId (loc recorded_empty)) = Some 7"
    by code_simp+
  from empty_recording_submitted [OF h1 h2 h3 h4 h5] h1 h2 h3 h4 h5 h6
  show ?thesis by simp
qed

section \<open>The consent record\<close>

text \<open>
  Claim C6, as the code has it. At the start of the app a stored record (one with the
  fields \<open>parentName\<close>, \<open>email\<close>, \<open>childAge\<close>, \<open>consentDate\<close>, \<open>sessionId\<close> that
  \<open>handleConsent\<close> writes) gives consent exactly when its \<open>consentDate\<close> is later
  than the instant at which the local clock showed the present time of day thirty
  calendar days ago: its age is less than 30 days of 24 hours less the growth of the
  local offset over those days. Where the offset is the same at both ends this is
  the spec's 30 days. A valid record stays in storage and the main app is rendered
  without the form; any other record is removed from storage and the consent form
  is rendered.
\<close>

theorem consent_thirty_days:
  "hasConsent (app (app_start tz now (Some (Consent c)))) = local_within_30_days tz c now
   \<and> (if local_within_30_days tz c now
       then storage (app_start tz now (Some (Consent c))) = Some (Consent c)
            \<and> consentData (app (app_start tz now (Some (Consent c)))) = Some c
            \<and> app_render (app (app_start tz now (Some (Consent c)))) = MainApp
       else storage (app_start tz now (Some (Consent c))) = None
            \<and> app_render (app (app_start tz now (Some (Consent c)))) = ConsentForm)
   \<and> (zone_shift tz now = 0 \<longrightarrow> local_within_30_days tz c now = within_30_days c now)"
  by (cases "consentDate c")
     (auto simp: app_start_def checkConsent_def within_30_days_def local_within_30_days_def
        zone_shift_def thirtyDaysAgo_def LocalTime_def utc_of_local_def
        app_initial_def app_render_def)

text \<open>
  Claim C6 as stated fails across a change of the local offset: in \<open>spring_zone\<close> a
  record that is thirty days less half an hour old, so within 30 days, is treated as
  expired, removed from storage, and the form is shown.
\<close>

theorem consent_expires_early:
  "within_30_days consent_spring 1713182400000
   \<and> \<not> hasConsent (app (app_start spring_zone 1713182400000 (Some (Consent consent_spring))))
   \<and> storage (app_start spring_zone 1713182400000 (Some (Consent consent_spring))) = None
   \<and> app_render (app (app_start spring_zone 1713182400000 (Some (Consent consent_spring))))
       = ConsentForm"
  by (simp add: within_30_days_def consent_spring_def spring_zone_def msPerDay_def
        app_start_def checkConsent_def thirtyDaysAgo_def LocalTime_def utc_of_local_def
        app_initial_def app_render_def)

lemma handleConsent_writes:
  assumes "f_parentName f \<noteq> []" "f_email f \<noteq> []" "f_childAge f \<noteq> []" "f_agreedToTerms f"
  shows "storage (handleConsent f t0 stamp w) =
           Some (Consent \<lparr> parentName = f_parentName f, email = f_email f,
                           childAge = parseInt (f_childAge f), consentDate = Some t0,
                           sessionId = ''session_'' @ show_int stamp \<rparr>)"
  using assms by (simp add: handleConsent_def Let_def)

lemma consent_round_trip:
  assumes "f_parentName f \<noteq> []" "f_email f \<noteq> []" "f_childAge f \<noteq> []" "f_agreedToTerms f"
  shows "hasConsent (app (app_start tz now (storage (handleConsent f t0 stamp w))))
           = (now - t0 < 30 * msPerDay - zone_shift tz now)"
  unfolding handleConsent_writes [OF assms]
  by (auto simp: app_start_def checkConsent_def thirtyDaysAgo_def LocalTime_def utc_of_local_def
        zone_shift_def app_initial_def)

theorem consent_thirty_days_witness:
  "zone_shift utc_zone 1702591999999 = 0
   \<and> within_30_days consent0 1702591999999
   \<and> app_render (app (app_start utc_zone 1702591999999 (Some (Consent consent0)))) = MainApp
   \<and> storage (app_start utc_zone 1702591999999 (Some (Consent consent0)))
       = Some (Consent consent0)
   \<and> zone_shift utc_zone 1702592000000 = 0
   \<and> \<not> within_30_days consent0 1702592000000
   \<and> app_render (app (app_start utc_zone 1702592000000 (Some (Consent consent0))))
       = ConsentForm
   \<and> storage (app_start utc_zone 1702592000000 (Some (Consent consent0))) = None
   \<and> zone_shift spring_zone 1713182400000 = 3600000
   \<and> \<not> local_within_30_days spring_zone consent_spring 1713182400000
   \<and> storage (app_start spring_zone 1713182400000 (Some (Consent consent_spring))) = None"
proof -
  have z1: "zone_shift utc_zone 1702591999999 = 0"
    and z2: "zone_shift utc_zone 1702592000000 = 0"
    by (simp_all add: zone_shift_def utc_zone_def)
  have z3: "zone_shift spring_zone 1713182400000 = 3600000"
    by (simp add: zone_shift_def spring_zone_def LocalTime_def msPerDay_def)
  have h1: "within_30_days consent0 1702591999999"
    by (simp add: within_30_days_def consent0_def msPerDay_def)
  have h2: "\<not> within_30_days consent0 1702592000000"
    by (simp add: within_30_days_def consent0_def msPerDay_def)
  have h3: "\<not> local_within_30_days spring_zone consent_spring 1713182400000"
    by (simp add: local_within_30_days_def z3 consent_spring_def msPerDay_def)
  note a = consent_thirty_days [of utc_zone 1702591999999 consent0]
  note b = consent_thirty_days [of utc_zone 1702592000000 consent0]
  note c = consent_thirty_days [of spring_zone 1713182400000 consent_spring]
  from a z1 h1 have l1: "local_within_30_days utc_zone consent0 1702591999999"
    by blast
  from b z2 h2 have l2: "\<not> local_within_30_days utc_zone consent0 1702592000000"
    by blast
  from a l1 have a1: "storage (app_start utc_zone 1702591999999 (Some (Consent consent0)))
          = Some (Consent consent0)
      \<and> app_render (app (app_start utc_zone 1702591999999 (Some (Consent consent0))))
          = MainApp"
    by (simp split: if_splits)
  from b l2 have b1: "storage (app_start utc_zone 1702592000000 (Some (Consent consent0)))
          = None
      \<and> app_render (app (app_start utc_zone 1702592000000 (Some (Consent consent0))))
          = ConsentForm"
    by (simp split: if_splits)
  from c h3 have c1: "storage (app_start spring_zone 1713182400000
          (Some (Consent consent_spring))) = None"
    by (simp split: if_splits)
  from a1 b1 c1 z1 z2 z3 h1 h2 h3 show ?thesis by blast
qed

section \<open>The claims on the example session\<close>

theorem text_only_question_witness:
  "pendingNext analyzing0 = [''data:image/jpeg;base64,AAAA'']
   \<and> a_question result0 = Some ''What is your animal doing?''
   \<and> \<not> truthy_str (a_questionAudio result0)
   \<and> navigated (draw_step analyzing0 (DAnalyzeSettled (AnalyzeOk result0))) = loc0
   \<and> render (ui (mount loc0)) = QuestionView ''What is your animal doing?'' False False
   \<and> questionAudio (ui (run (mount loc0) (recorded blob0))) = None
   \<and> playAudioCalls (run (mount loc0) (recorded blob0)) = 0"
proof -
  have h1: "pendingNext analyzing0 = ''data:image/jpeg;base64,AAAA'' # []" by code_simp
  have h2: "a_question result0 = Some ''What is your animal doing?''" by code_simp
  have h3: "''What is your animal doing?'' \<noteq> []" by simp
  have h4: "\<not> truthy_str (a_questionAudio result0)" by code_simp
  have h5: "Some (talk_nav (dloc analyzing0) ''data:image/jpeg;base64,AAAA'' result0) = loc0"
    by code_simp
  note t = text_only_question [OF h1 h2 h3 h4, of "recorded blob0"]
  from t h1 h2 h4 show ?thesis unfolding h5 by simp
qed

theorem played_once_witness:
  "questionAudioPlayed (ui playing0) \<and> playAudioCalls playing0 = 1
   \<and> playAudioCalls (run playing0 (recorded blob0 @ [ClickTalk, MicGranted 1])) = 1
   \<and> questionAudioPlayed (ui (run playing0 (recorded blob0 @ [ClickTalk, MicGranted 1])))
   \<and> questionAudio (ui (run playing0 (recorded blob0 @ [ClickTalk, MicGranted 1])))
       \<noteq> questionAudio (ui playing0)"
proof -
  have h1: "questionAudioPlayed (ui playing0)" by code_simp
  have h2: "playAudioCalls playing0 = 1" by code_simp
  have h3: "questionAudio (ui (run playing0 (recorded blob0 @ [ClickTalk, MicGranted 1])))
       \<noteq> questionAudio (ui playing0)" by code_simp
  from played_once [OF h1, of "recorded blob0 @ [ClickTalk, MicGranted 1]"] h1 h2 h3
  show ?thesis by simp
qed

theorem microphone_released_witness:
  "route (run (mount loc_audio) (AudioLoaded # recording0)) = TalkRoute
   \<and> rec_recording (run (mount loc_audio) (AudioLoaded # recording0)) 0
   \<and> enabled (run (mount loc_audio) (AudioLoaded # recording0)) NavigateAway
   \<and> route (step (run (mount loc_audio) (AudioLoaded # recording0)) NavigateAway) \<noteq> TalkRoute
   \<and> all_stopped (step (run (mount loc_audio) (AudioLoaded # recording0)) NavigateAway)
   \<and> enabled (run (mount loc_audio) (AudioLoaded # recording0)) ClickTalk
   \<and> isRecording (ui (run (mount loc_audio) (AudioLoaded # recording0)))
   \<and> all_stopped (step (run (mount loc_audio) (AudioLoaded # recording0)) ClickTalk)
   \<and> enabled (run (mount loc_audio) (AudioLoaded # recording0 @ [ClickTalk]))
         (RecorderStopTask 0 blob0)
   \<and> list_all (\<lambda>t. t = Ended)
        (tracks (recorders (step (run (mount loc_audio) (AudioLoaded # recording0 @ [ClickTalk]))
                              (RecorderStopTask 0 blob0)) ! 0))"
proof -
  let ?w = "run (mount loc_audio) (AudioLoaded # recording0)"
  let ?v = "run (mount loc_audio) (AudioLoaded # recording0 @ [ClickTalk])"
  have h1: "route ?w = TalkRoute" by code_simp
  have h2: "enabled ?w NavigateAway" by code_simp
  have h3: "route (step ?w NavigateAway) \<noteq> TalkRoute" by code_simp
  have h4: "enabled ?w ClickTalk" by code_simp
  have h5: "isRecording (ui ?w)" by code_simp
  have h6: "enabled ?v (RecorderStopTask 0 blob0)" by code_simp
  have h7: "rec_recording ?w 0" by code_simp
  note a = microphone_released [of loc_audio "AudioLoaded # recording0" NavigateAway 0 blob0]
  note b = microphone_released [of loc_audio "AudioLoaded # recording0 @ [ClickTalk]"
             NavigateAway 0 blob0]
  from a h1 h2 h3 have a1: "all_stopped (step ?w NavigateAway)"
    by blast
  from a h4 h5 have a2: "all_stopped (step ?w ClickTalk)"
    by blast
  from b h6 have b1: "list_all (\<lambda>t. t = Ended)
        (tracks (recorders (step ?v (RecorderStopTask 0 blob0)) ! 0))"
    by blast
  from a1 a2 b1 h1 h2 h3 h4 h5 h6 h7 show ?thesis by blast
qed

text \<open>
  Claim C9 as stated fails: when the user leaves the screen during a recording, the
  recorder is stopped but both tracks of its stream are still live once the screen
  is left; they end when the queued task runs \<open>onstop\<close>.
\<close>

theorem tracks_live_after_leaving:
  "route (step (run (mount loc0) recording0) NavigateAway) = OtherRoute
   \<and> recorders (step (run (mount loc0) recording0) NavigateAway)
       = [\<lparr>rstate = Inactive, tracks = [Live, Live], stopQueued = True\<rparr>]
   \<and> recorders (run (mount loc0) (recording0 @ [NavigateAway, RecorderStopTask 0 blob0]))
       = [\<lparr>rstate = Inactive, tracks = [Ended, Ended], stopQueued = False\<rparr>]"
  by code_simp

text \<open>
  A microphone that arrives after the screen was left is outside that statement: the
  continuation of \<open>startRecording\<close> still starts a recorder, and nothing stops it.
\<close>

lemma late_microphone_stays_open:
  "recorders (run (mount loc0) [ClickTalk, NavigateAway, MicGranted 1])
     = [\<lparr>rstate = Recording, tracks = [Live], stopQueued = False\<rparr>]
   \<and> \<not> enabled (run (mount loc0) [ClickTalk, NavigateAway, MicGranted 1]) ClickTalk
   \<and> \<not> enabled (run (mount loc0) [ClickTalk, NavigateAway, MicGranted 1]) NavigateAway"
  by code_simp

section \<open>One request at a time\<close>

text \<open>
  Claim C5 on TalkScreen, at the trace \<open>double_submit\<close>, every event of which can
  happen where it stands. After its seventh event (the microphone arrives while the
  first request is awaited) one request is in flight, the loading flag is false and
  the buttons are enabled again; at its end two requests are in flight.
\<close>

theorem double_submit_in_flight:
  "map_option (\<lambda>w. (inflight w, length (sent w), isLoading (ui w), pendingMic w))
     (run_checked (mount loc0) double_submit) = Some (2, 2, True, 0)
   \<and> map_option (\<lambda>w. (inflight w, isLoading (ui w), enabled w ClickTalk))
       (run_checked (mount loc0) (take 7 double_submit)) = Some (1, False, True)"
  by code_simp

text \<open>What holds of the claim: a set loading flag disables both buttons of TalkScreen.\<close>

lemma loading_disables:
  "isLoading (ui w) \<Longrightarrow> \<not> enabled w ClickFinish \<and> \<not> enabled w ClickTalk"
  by (simp add: enabled_def render_def)

text \<open>
  DrawScreen keeps the claim: \<open>isLoading\<close> is set by \<open>handleNext\<close> and cleared only
  when its requests settled, so at most one analysis is awaited, and while one is
  the next button is disabled.
\<close>

lemma draw_step_single:
  assumes "length (pendingNext w) \<le> 1"
    and "navigated w = None \<and> pendingNext w \<noteq> [] \<longrightarrow> isLoading_draw (dui w)"
  shows "length (pendingNext (draw_step w e)) \<le> 1
     \<and> (navigated (draw_step w e) = None \<and> pendingNext (draw_step w e) \<noteq> []
          \<longrightarrow> isLoading_draw (dui (draw_step w e)))"
proof (cases e)
  case DNext
  show ?thesis
  proof (cases "draw_enabled w e")
    case True
    with DNext have "pendingNext w = []"
      using assms(2) by (auto simp: draw_enabled_def nextDisabled_def)
    with DNext True show ?thesis
      by (simp add: draw_step_def handleNext_def split: option.splits)
  next
    case False
    then show ?thesis using assms by (simp add: draw_step_def)
  qed
next
  case (DAnalyzeSettled out)
  then show ?thesis using assms
    by (cases "pendingNext w"; cases out)
       (simp_all add: draw_step_def draw_enabled_def analyzeSettled_def Let_def)
qed (use assms in \<open>simp_all add: draw_step_def capture_def capture_throws_def retake_def
       startCamera_def\<close>)

lemma draw_single_flight:
  "length (pendingNext (draw_run (draw_initial l) es)) \<le> 1
   \<and> (navigated (draw_run (draw_initial l) es) = None
        \<and> pendingNext (draw_run (draw_initial l) es) \<noteq> []
      \<longrightarrow> isLoading_draw (dui (draw_run (draw_initial l) es))
          \<and> \<not> draw_enabled (draw_run (draw_initial l) es) DNext)"
proof (induction es rule: rev_induct)
  case Nil
  then show ?case by (simp add: draw_run_def draw_initial_def)
next
  case (snoc e es)
  let ?w = "draw_run (draw_initial l) es"
  have r: "draw_run (draw_initial l) (es @ [e]) = draw_step ?w e"
    by (simp add: draw_run_def)
  from snoc.IH have a: "length (pendingNext ?w) \<le> 1"
    and b: "navigated ?w = None \<and> pendingNext ?w \<noteq> [] \<longrightarrow> isLoading_draw (dui ?w)"
    by simp_all
  from draw_step_single [OF a b, of e] show ?case
    unfolding r by (auto simp: draw_enabled_def nextDisabled_def)
qed

end
